theory Spec2Isabelle
  imports Complex_Main "HOL-Library.Word"
begin

section \<open>Process bootstrap: \<open>__main__.py\<close>\<close>

subsection \<open>Python values and the command line\<close>

text \<open>
  The values that end up in the \<open>argparse\<close> namespace. The only float that \<open>main\<close>
  produces is the literal \<open>0.0\<close>, so a float is represented by the real it denotes.
\<close>

datatype pyval = PyNone | PyStr string | PyFloat real

type_synonym environ = "string \<rightharpoonup> string"

definition environ_get :: "environ \<Rightarrow> string \<Rightarrow> pyval" where
  \<comment> \<open>\<open>os.environ.get(key)\<close>\<close>
  "environ_get env k = (case env k of None \<Rightarrow> PyNone | Some v \<Rightarrow> PyStr v)"

text \<open>
  The command line, after \<open>argparse\<close> has matched each argument string against the option
  strings that \<open>main\<close> declares (lines 21--69). \<open>Temperature s\<close> stands for
  \<open>-t s\<close> or \<open>--temperature s\<close>, and so on; \<open>MissingValue\<close> is an option that takes
  a value and is given none; \<open>Unrecognized s\<close> is an argument no declared option matches.
  An abbreviation that fits several options, which \<open>argparse\<close> refuses before it consumes
  anything, is not represented.
\<close>

datatype cli_arg =
    Api string
  | Uri string
  | OpenaiApiKey string
  | OpenaiModel string
  | Language string
  | Prompt string
  | Temperature string
  | Debug
  | LogFormat string
  | Version
  | Help
  | MissingValue
  | Unrecognized string

record namespace =
  api :: pyval
  uri :: pyval
  openai_api_key :: pyval
  openai_model :: pyval
  language :: pyval
  prompt :: pyval
  temperature :: pyval
  debug :: bool
  log_format :: pyval

datatype system_exit = SystemExit nat

definition BASIC_FORMAT :: string where
  \<comment> \<open>\<open>logging.BASIC_FORMAT\<close>\<close>
  "BASIC_FORMAT = ''%(levelname)s:%(name)s:%(message)s''"

text \<open>
  What the repository imports from files that are not part of \<open>__main__.py\<close>
  (\<open>__version__\<close>, \<open>const.WHISPER_LANGUAGES\<close>, \<open>const.OPENAI_DEFAULT_MODEL\<close>) and the
  library function \<open>AsyncServer.from_uri\<close>, which either returns a server or raises.
\<close>

datatype server = AsyncServer string

record externals =
  version :: string
  WHISPER_LANGUAGES :: "string list"
  OPENAI_DEFAULT_MODEL :: string
  from_uri :: "string \<Rightarrow> server option"

definition parser_defaults :: "externals \<Rightarrow> environ \<Rightarrow> namespace" where
  \<comment> \<open>the \<open>default=\<close> of each \<open>add_argument\<close>, evaluated when \<open>main\<close> builds the parser\<close>
  "parser_defaults ext env =
     \<lparr> api = PyNone,
       uri = PyNone,
       openai_api_key = environ_get env ''OPENAI_API_KEY'',
       openai_model = PyStr (OPENAI_DEFAULT_MODEL ext),
       language = PyNone,
       prompt = PyNone,
       temperature = PyFloat 0,
       debug = False,
       log_format = PyStr BASIC_FORMAT \<rparr>"

text \<open>
  \<open>argparse\<close> consumes the arguments left to right. A \<open>store\<close> action overwrites the
  attribute with the argument string as it is (no \<open>type=\<close> is declared anywhere), the
  \<open>version\<close> and \<open>help\<close> actions print and exit with status 0 on the spot, an option
  without its value is an error (status 2) on the spot, and unrecognised arguments are
  collected and reported after everything else. The flag paired with the namespace
  records whether any were collected.
\<close>

fun parse_known_args :: "cli_arg list \<Rightarrow> namespace \<Rightarrow> bool \<Rightarrow> system_exit + namespace \<times> bool" where
  "parse_known_args [] ns extras = Inr (ns, extras)"
| "parse_known_args (Api v # rest) ns extras = parse_known_args rest (ns\<lparr>api := PyStr v\<rparr>) extras"
| "parse_known_args (Uri v # rest) ns extras = parse_known_args rest (ns\<lparr>uri := PyStr v\<rparr>) extras"
| "parse_known_args (OpenaiApiKey v # rest) ns extras =
     parse_known_args rest (ns\<lparr>openai_api_key := PyStr v\<rparr>) extras"
| "parse_known_args (OpenaiModel v # rest) ns extras =
     parse_known_args rest (ns\<lparr>openai_model := PyStr v\<rparr>) extras"
| "parse_known_args (Language v # rest) ns extras =
     parse_known_args rest (ns\<lparr>language := PyStr v\<rparr>) extras"
| "parse_known_args (Prompt v # rest) ns extras =
     parse_known_args rest (ns\<lparr>prompt := PyStr v\<rparr>) extras"
| "parse_known_args (Temperature v # rest) ns extras =
     parse_known_args rest (ns\<lparr>temperature := PyStr v\<rparr>) extras"
| "parse_known_args (Debug # rest) ns extras = parse_known_args rest (ns\<lparr>debug := True\<rparr>) extras"
| "parse_known_args (LogFormat v # rest) ns extras =
     parse_known_args rest (ns\<lparr>log_format := PyStr v\<rparr>) extras"
| "parse_known_args (Version # rest) ns extras = Inl (SystemExit 0)"
| "parse_known_args (Help # rest) ns extras = Inl (SystemExit 0)"
| "parse_known_args (MissingValue # rest) ns extras = Inl (SystemExit 2)"
| "parse_known_args (Unrecognized s # rest) ns extras = parse_known_args rest ns True"

definition parse_args :: "externals \<Rightarrow> environ \<Rightarrow> cli_arg list \<Rightarrow> system_exit + namespace" where
  \<comment> \<open>\<open>--api\<close> and \<open>--uri\<close> are \<open>required=True\<close>: a store action always writes a string, so
      the attribute is still \<open>None\<close> exactly when the option never occurred\<close>
  "parse_args ext env argv =
     (case parse_known_args argv (parser_defaults ext env) False of
        Inl e \<Rightarrow> Inl e
      | Inr (ns, extras) \<Rightarrow>
          if api ns = PyNone \<or> uri ns = PyNone then Inl (SystemExit 2)
          else if extras then Inl (SystemExit 2)
          else Inr ns)"

text \<open>
  The values given to one option on a command line, in order: \<open>supplied temperature_of argv\<close>
  is empty exactly when \<open>--temperature\<close> is not supplied.
\<close>

fun api_of :: "cli_arg \<Rightarrow> string option" where
  "api_of (Api v) = Some v"
| "api_of _ = None"

fun key_of :: "cli_arg \<Rightarrow> string option" where
  "key_of (OpenaiApiKey v) = Some v"
| "key_of _ = None"

fun temperature_of :: "cli_arg \<Rightarrow> string option" where
  "temperature_of (Temperature v) = Some v"
| "temperature_of _ = None"

definition supplied :: "(cli_arg \<Rightarrow> string option) \<Rightarrow> cli_arg list \<Rightarrow> string list" where
  "supplied f argv = List.map_filter f argv"

text \<open>What a \<open>store\<close> action leaves in an attribute: the last value given, or the default.\<close>

definition resolved :: "pyval \<Rightarrow> string list \<Rightarrow> pyval" where
  "resolved d vs = (if vs = [] then d else PyStr (last vs))"

subsection \<open>The capability descriptor\<close>

record attribution =
  attribution_name :: string
  attribution_url :: string

record asr_model =
  model_name :: string
  model_description :: string
  model_attribution :: attribution
  model_installed :: bool
  model_languages :: "string list"
  model_version :: string

record asr_program =
  program_name :: string
  program_description :: string
  program_attribution :: attribution
  program_installed :: bool
  program_version :: string
  program_models :: "asr_model list"

record info =
  asr :: "asr_program list"

definition wyoming_info :: "externals \<Rightarrow> info" where
  \<comment> \<open>lines 77--103\<close>
  "wyoming_info ext =
     \<lparr> asr =
         [ \<lparr> program_name = ''whisper-cpp'',
             program_description = ''Faster Whisper transcription via its API'',
             program_attribution =
               \<lparr> attribution_name = ''Michael Hansen'',
                 attribution_url = ''https://github.com/synesthesiam'' \<rparr>,
             program_installed = True,
             program_version = version ext,
             program_models =
               [ \<lparr> model_name = ''whisper.cpp'',
                   model_description = ''whisper.cpp'',
                   model_attribution =
                     \<lparr> attribution_name = ''rhasspy wyoming faster whisper'',
                       attribution_url = ''https://github.com/rhasspy/wyoming-faster-whisper'' \<rparr>,
                   model_installed = True,
                   model_languages = WHISPER_LANGUAGES ext,
                   model_version = ''1.0'' \<rparr> ] \<rparr> ] \<rparr>"

subsection \<open>Objects, and \<open>main\<close>\<close>

text \<open>
  Objects whose identity matters live in a heap: a list of objects, the address of an
  object being its position. Constructing an object appends it. An \<open>asyncio.Lock\<close> is its
  \<open>_locked\<close> flag.
\<close>

type_synonym addr = nat

datatype obj = InfoObj info | LockObj bool

type_synonym heap = "obj list"

definition alloc :: "heap \<Rightarrow> obj \<Rightarrow> addr \<times> heap" where
  "alloc h ob = (length h, h @ [ob])"

text \<open>The effects of \<open>main\<close>, in program order.\<close>

datatype effect =
    BasicConfig bool pyval
  | LogDebugArgs
  | is_NewInfo: NewInfo addr
  | FromUri string
  | LogReady
  | is_NewLock: NewLock addr
  | ServerRun

fun is_lock :: "obj \<Rightarrow> bool" where
  "is_lock (LockObj _) = True"
| "is_lock (InfoObj _) = False"

fun is_info :: "obj \<Rightarrow> bool" where
  "is_info (InfoObj _) = True"
| "is_info (LockObj _) = False"

record running =
  args :: namespace
  wyoming_info_ref :: addr
  model_lock :: addr
  the_server :: server
  objects :: heap
  effects :: "effect list"

datatype outcome =
    is_Exited: Exited system_exit
  | is_Raised: Raised string
  | is_Serving: Serving (running_of: running)

text \<open>
  \<open>logging.basicConfig(format=...)\<close>, lines 72--74, builds a \<open>logging.Formatter\<close> of
  style \<open>%\<close>, which raises \<open>ValueError\<close> unless its validation pattern is found
  somewhere in the format: a percent sign, a name of one or more word characters in
  parentheses, any number of the flags \<open>#0+ -\<close>, an optional width (a star or digits),
  an optional precision (a dot, then a star or digits) and a conversion character, one of
  \<open>diouxefgcrsa%\<close> in either case. \<open>validation_search\<close> is that search. An empty
  format stands for the default one, \<open>%(message)s\<close>.
\<close>

definition word_char :: "char \<Rightarrow> bool" where
  "word_char c \<longleftrightarrow>
     c \<in> set ''abcdefghijklmnopqrstuvwxyzABCDEFGHIJKLMNOPQRSTUVWXYZ0123456789_''"

definition digit_char :: "char \<Rightarrow> bool" where
  "digit_char c \<longleftrightarrow> c \<in> set ''0123456789''"

definition flag_char :: "char \<Rightarrow> bool" where
  "flag_char c \<longleftrightarrow> c \<in> set ''#0+ -''"

definition conversion_char :: "char \<Rightarrow> bool" where
  "conversion_char c \<longleftrightarrow> c \<in> set ''diouxefgcrsaDIOUXEFGCRSA%''"

definition after_width :: "string \<Rightarrow> string" where
  "after_width s =
     (case s of [] \<Rightarrow> [] | c # t \<Rightarrow> if c = CHR ''*'' then t else dropWhile digit_char s)"

definition after_precision :: "string \<Rightarrow> string option" where
  "after_precision s =
     (case s of
        [] \<Rightarrow> Some []
      | c # t \<Rightarrow>
          if c \<noteq> CHR ''.'' then Some s
          else (case t of
                  [] \<Rightarrow> None
                | d # u \<Rightarrow>
                    if d = CHR ''*'' then Some u
                    else if digit_char d then Some (dropWhile digit_char t)
                    else None))"

definition conversion_at :: "string \<Rightarrow> bool" where
  "conversion_at s =
     (case after_precision (after_width (dropWhile flag_char s)) of
        None \<Rightarrow> False
      | Some [] \<Rightarrow> False
      | Some (c # _) \<Rightarrow> conversion_char c)"

definition field_at :: "string \<Rightarrow> bool" where
  "field_at s =
     (case s of
        c1 # c2 # rest \<Rightarrow>
          c1 = CHR ''%'' \<and> c2 = CHR ''('' \<and> takeWhile word_char rest \<noteq> [] \<and>
          (case dropWhile word_char rest of
             [] \<Rightarrow> False
           | c3 # t \<Rightarrow> c3 = CHR '')'' \<and> conversion_at t)
      | _ \<Rightarrow> False)"

fun validation_search :: "string \<Rightarrow> bool" where
  "validation_search [] = False"
| "validation_search (c # s) = (field_at (c # s) \<or> validation_search s)"

definition formatter_format :: "string \<Rightarrow> string" where
  \<comment> \<open>\<open>fmt or self.default_format\<close>\<close>
  "formatter_format fmt = (if fmt = [] then ''%(message)s'' else fmt)"

fun str_of :: "pyval \<Rightarrow> string" where
  "str_of (PyStr s) = s"
| "str_of _ = []"

definition main :: "externals \<Rightarrow> environ \<Rightarrow> cli_arg list \<Rightarrow> outcome" where
  "main ext env argv =
     (case parse_args ext env argv of
        Inl e \<Rightarrow> Exited e
      | Inr a \<Rightarrow>
          if \<not> validation_search (formatter_format (str_of (log_format a)))
          then Raised ''ValueError''
          else
            let (i, h1) = alloc [] (InfoObj (wyoming_info ext)) in
            (case from_uri ext (str_of (uri a)) of
               None \<Rightarrow> Raised ''ValueError''
             | Some srv \<Rightarrow>
                 let (l, h2) = alloc h1 (LockObj False) in
                 Serving
                   \<lparr> args = a,
                     wyoming_info_ref = i,
                     model_lock = l,
                     the_server = srv,
                     objects = h2,
                     effects =
                       [ BasicConfig (debug a) (log_format a), LogDebugArgs, NewInfo i,
                         FromUri (str_of (uri a)), LogReady, NewLock l, ServerRun ] \<rparr>))"

section \<open>The session handler\<close>

text \<open>
  \<open>handler.py\<close>, which defines \<open>WhisperAPIEventHandler\<close>, is not among the sources.
  Everything in this section except \<open>handler_factory\<close> is modelled from the specification
  (sections 3 to 7); \<open>handler_factory\<close> is the \<open>partial(...)\<close> of lines 111--116.
\<close>

subsection \<open>Data\<close>

text \<open>
  Modelled from the spec: the data of the missing \<open>handler.py\<close>, sections 3, 4.1, 4.2 and
  6: the phases of a session, the result of a backend call, the events of the front
  protocol in both directions (a request for the descriptor included), the Transcription
  Request and the Session.
\<close>

type_synonym conn = nat
type_synonym bytes = "8 word list"

datatype phase = Idle | Receiving | Transcribing | Closed

text \<open>
  Modelled from the spec: section 4.2 of the missing \<open>handler.py\<close>. Within
  \<open>Transcribing\<close> a session is first suspended on the Concurrency Gate and then has
  its one backend call outstanding.
\<close>

datatype call_state = NoCall | AwaitGate | InFlight

datatype failure =
    BackendUnreachable
  | BackendTimeout
  | BackendRejected nat string
  | BackendProtocolError

datatype transcription_result = TranscriptText string | Failure failure

datatype out_event = TranscriptEvent string | ErrorEvent failure | InfoEvent info

datatype in_event =
    SessionStart "string option" "string option" "real option"
  | AudioChunk bytes
  | SessionStop
  | Describe
  | Disconnect

record transcription_request =
  req_audio :: bytes
  req_language :: "string option"
  req_prompt :: "string option"
  req_temperature :: pyval
  req_model :: pyval
  req_credentials :: pyval
  req_api :: pyval

record session =
  s_conn :: conn
  s_info :: addr
  s_args :: namespace
  s_lock :: addr
  connected :: bool
  phase :: phase
  call :: call_state
  buffer :: "bytes list"
  act_language :: "string option"
  act_prompt :: "string option"
  act_temperature :: pyval
  sent :: "out_event list"
  violations :: nat

subsection \<open>Temperature policy\<close>

text \<open>
  Modelled from the spec: the treatment, in the missing \<open>handler.py\<close>, of a temperature
  outside \<open>[0,1]\<close> that a session-start event supplies (sections 4.1, 6 and 8). The
  specification leaves the choice between clamping and rejecting to the implementation,
  so the policy is a parameter. The configured default is not the handler's to check:
  the configuration is read once at startup, outside the core, and passed in as an
  immutable value (sections 6 and 7), and a session-start without an override falls back
  to it (section 4.2). It is therefore used as \<open>main\<close> hands it over.
\<close>

datatype policy = Clamp | Reject

datatype protocol_violation = ProtocolViolation

definition clamp_temperature :: "real \<Rightarrow> real" where
  \<comment> \<open>Modelled from the spec: \<open>handler.py\<close>, section 8 (clamping 1.5 yields 1.0).\<close>
  "clamp_temperature t = min 1 (max 0 t)"

definition admit_temperature :: "policy \<Rightarrow> real \<Rightarrow> protocol_violation + real" where
  \<comment> \<open>Modelled from the spec: \<open>handler.py\<close>, sections 4.1 and 8 (clamped or rejected).\<close>
  "admit_temperature pol t =
     (case pol of
        Clamp \<Rightarrow> Inr (clamp_temperature t)
      | Reject \<Rightarrow> if 0 \<le> t \<and> t \<le> 1 then Inr t else Inl ProtocolViolation)"

record core =
  temperature_policy :: policy

definition request_temperature ::
  "core \<Rightarrow> namespace \<Rightarrow> real option \<Rightarrow> protocol_violation + pyval" where
  \<comment> \<open>Modelled from the spec: \<open>handler.py\<close>, sections 4.2 and 8. The override of the
      session-start event, under the policy, or else the configured default as it is.\<close>
  "request_temperature k a override =
     (case override of
        None \<Rightarrow> Inr (temperature a)
      | Some t \<Rightarrow>
          (case admit_temperature (temperature_policy k) t of
             Inl e \<Rightarrow> Inl e
           | Inr x \<Rightarrow> Inr (PyFloat x)))"

subsection \<open>One session\<close>

definition WhisperAPIEventHandler :: "addr \<Rightarrow> namespace \<Rightarrow> addr \<Rightarrow> conn \<Rightarrow> session" where
  \<comment> \<open>Modelled from the spec: the constructor of the class in the missing \<open>handler.py\<close>
      (section 3). A session is created on connection accept, in \<open>Idle\<close>, with an
      empty buffer and the configured parameters, and keeps the descriptor, the
      configuration and the Gate it is given.\<close>
  "WhisperAPIEventHandler i a l c =
     \<lparr> s_conn = c, s_info = i, s_args = a, s_lock = l,
       connected = True, phase = Idle, call = NoCall, buffer = [],
       act_language = None, act_prompt = None, act_temperature = temperature a,
       sent = [], violations = 0 \<rparr>"

definition handler_factory :: "running \<Rightarrow> conn \<Rightarrow> session" where
  \<comment> \<open>\<open>partial(WhisperAPIEventHandler, wyoming_info, args, model_lock)\<close>, lines 111--116\<close>
  "handler_factory r = WhisperAPIEventHandler (wyoming_info_ref r) (args r) (model_lock r)"

fun opt_str :: "pyval \<Rightarrow> string option" where
  "opt_str (PyStr s) = Some s"
| "opt_str _ = None"

definition violation :: "session \<Rightarrow> session" where
  \<comment> \<open>Modelled from the spec: \<open>handler.py\<close>, sections 4.2 and 7. An event the current
      phase does not accept is ignored and logged, and the session goes on.\<close>
  "violation s = s\<lparr>violations := Suc (violations s)\<rparr>"

definition onSessionStart ::
  "core \<Rightarrow> session \<Rightarrow> string option \<Rightarrow> string option \<Rightarrow> real option \<Rightarrow> session" where
  \<comment> \<open>Modelled from the spec: \<open>handler.py\<close>, section 4.2, \<open>Idle\<close>. Overrides not supplied
      fall back to the process-wide defaults.\<close>
  "onSessionStart k s l p t =
     (if phase s \<noteq> Idle then violation s
      else case request_temperature k (s_args s) t of
             Inl _ \<Rightarrow> violation s
           | Inr temp \<Rightarrow>
               s\<lparr> phase := Receiving, buffer := [],
                  act_language := (case l of Some v \<Rightarrow> Some v | None \<Rightarrow> opt_str (language (s_args s))),
                  act_prompt := (case p of Some v \<Rightarrow> Some v | None \<Rightarrow> opt_str (prompt (s_args s))),
                  act_temperature := temp \<rparr>)"

definition onAudioChunk :: "session \<Rightarrow> bytes \<Rightarrow> session" where
  \<comment> \<open>Modelled from the spec: \<open>handler.py\<close>, section 4.2, \<open>Receiving\<close>. The chunk is
      appended to the buffer.\<close>
  "onAudioChunk s b =
     (if phase s = Receiving then s\<lparr>buffer := buffer s @ [b]\<rparr> else violation s)"

definition onSessionStop :: "session \<Rightarrow> session" where
  \<comment> \<open>Modelled from the spec: \<open>handler.py\<close>, section 4.2. Stop moves to \<open>Transcribing\<close>,
      also with an empty buffer; the session then waits for the Gate.\<close>
  "onSessionStop s =
     (if phase s = Receiving then s\<lparr>phase := Transcribing, call := AwaitGate\<rparr> else violation s)"

definition onDisconnect :: "session \<Rightarrow> session" where
  \<comment> \<open>Modelled from the spec: \<open>handler.py\<close>, section 4.2. Transport close with buffered
      data present moves to \<open>Transcribing\<close>; a disconnect during \<open>Transcribing\<close>
      leaves the call outstanding; otherwise the session is \<open>Closed\<close>.\<close>
  "onDisconnect s =
     (case phase s of
        Idle \<Rightarrow> s\<lparr>connected := False, phase := Closed\<rparr>
      | Receiving \<Rightarrow>
          if concat (buffer s) = [] then s\<lparr>connected := False, phase := Closed\<rparr>
          else s\<lparr>connected := False, phase := Transcribing, call := AwaitGate\<rparr>
      | Transcribing \<Rightarrow> s\<lparr>connected := False\<rparr>
      | Closed \<Rightarrow> s\<lparr>connected := False\<rparr>)"

definition onDescribe :: "heap \<Rightarrow> session \<Rightarrow> session" where
  \<comment> \<open>Modelled from the spec: \<open>handler.py\<close>, section 6. The descriptor is sent to the
      client on request.\<close>
  "onDescribe h s =
     (if s_info s < length h then
        (case h ! s_info s of
           InfoObj i \<Rightarrow> s\<lparr>sent := sent s @ [InfoEvent i]\<rparr>
         | LockObj _ \<Rightarrow> violation s)
      else violation s)"

text \<open>
  Modelled from the spec: the event handler of the missing \<open>handler.py\<close>, section 4.2
  (one entry point per event).
\<close>

fun on_event :: "core \<Rightarrow> heap \<Rightarrow> session \<Rightarrow> in_event \<Rightarrow> session" where
  "on_event k h s (SessionStart l p t) = onSessionStart k s l p t"
| "on_event k h s (AudioChunk b) = onAudioChunk s b"
| "on_event k h s SessionStop = onSessionStop s"
| "on_event k h s Describe = onDescribe h s"
| "on_event k h s Disconnect = onDisconnect s"

definition build_request :: "session \<Rightarrow> transcription_request" where
  \<comment> \<open>Modelled from the spec: \<open>handler.py\<close>, section 3. The Transcription Request derived
      from a session at flush time.\<close>
  "build_request s =
     \<lparr> req_audio = concat (buffer s),
       req_language = act_language s,
       req_prompt = act_prompt s,
       req_temperature = act_temperature s,
       req_model = openai_model (s_args s),
       req_credentials = openai_api_key (s_args s),
       req_api = api (s_args s) \<rparr>"

text \<open>
  Modelled from the spec: \<open>handler.py\<close>, sections 4.2 and 7. A transcript event on
  success, an error event on failure.
\<close>

fun outcome_event :: "transcription_result \<Rightarrow> out_event" where
  "outcome_event (TranscriptText t) = TranscriptEvent t"
| "outcome_event (Failure f) = ErrorEvent f"

definition on_result :: "session \<Rightarrow> transcription_result \<Rightarrow> session" where
  \<comment> \<open>Modelled from the spec: \<open>handler.py\<close>, section 4.2, \<open>Transcribing\<close> and \<open>Closed\<close>.
      One outcome event, the buffer cleared, back to \<open>Idle\<close>; after a disconnect the
      result is discarded.\<close>
  "on_result s res =
     (if connected s
      then s\<lparr>phase := Idle, call := NoCall, buffer := [], sent := sent s @ [outcome_event res]\<rparr>
      else s\<lparr>phase := Closed, call := NoCall, buffer := []\<rparr>)"

subsection \<open>All sessions, the Gate and the dispatcher\<close>

text \<open>
  Modelled from the spec: the state of the running process (section 5), which the
  dispatcher of the library and the missing \<open>handler.py\<close> maintain: the sessions by
  connection, the shared objects, the requests issued to the backend so far, and the
  environment. An action is the acceptance of a connection, the delivery of an event to
  a session, a session acquiring the Gate and issuing its call, the backend answering a
  call, or a change of the environment.
\<close>

record system =
  sessions :: "conn \<rightharpoonup> session"
  heap :: heap
  calls :: "(conn \<times> transcription_request) list"
  environ :: environ

datatype action =
    Accept conn
  | Deliver conn in_event
  | Acquire conn
  | Resolve conn transcription_result
  | Setenv string "string option"

text \<open>
  The process as \<open>server.run\<close> starts: no session yet, the objects \<open>main\<close> has made, no
  backend call issued, the environment \<open>main\<close> was started in.
\<close>

definition initial :: "environ \<Rightarrow> running \<Rightarrow> system" where
  "initial env r = \<lparr> sessions = Map.empty, heap = objects r, calls = [], environ = env \<rparr>"

definition lock_free :: "heap \<Rightarrow> addr \<Rightarrow> bool" where
  \<comment> \<open>\<open>not lock.locked()\<close>\<close>
  "lock_free h a = (a < length h \<and> h ! a = LockObj False)"

definition ready :: "session \<Rightarrow> in_event \<Rightarrow> bool" where
  \<comment> \<open>Modelled from the spec: \<open>handler.py\<close>, section 5. A session reads its next event only
      when it is not suspended in \<open>Transcribing\<close>; the transport can close at any time.\<close>
  "ready s ev =
     (connected s \<and> (ev = Disconnect \<or> phase s = Idle \<or> phase s = Receiving))"

text \<open>
  Modelled from the spec: \<open>handler.py\<close>, sections 4.2 to 5. One step of the whole process.
  Each session is its own task; a step is what one task does between two suspension
  points, or a change of the process environment. \<open>None\<close> means the step cannot happen
  in this state.
\<close>

fun step :: "core \<Rightarrow> running \<Rightarrow> action \<Rightarrow> system \<Rightarrow> system option" where
  "step k r (Accept c) sys =
     (case sessions sys c of
        Some _ \<Rightarrow> None
      | None \<Rightarrow> Some (sys\<lparr>sessions := (sessions sys)(c \<mapsto> handler_factory r c)\<rparr>))"
| "step k r (Deliver c ev) sys =
     (case sessions sys c of
        None \<Rightarrow> None
      | Some s \<Rightarrow>
          if ready s ev
          then Some (sys\<lparr>sessions := (sessions sys)(c \<mapsto> on_event k (heap sys) s ev)\<rparr>)
          else None)"
| "step k r (Acquire c) sys =
     (case sessions sys c of
        None \<Rightarrow> None
      | Some s \<Rightarrow>
          if call s = AwaitGate \<and> lock_free (heap sys) (s_lock s)
          then Some (sys\<lparr> sessions := (sessions sys)(c \<mapsto> s\<lparr>call := InFlight\<rparr>),
                          heap := (heap sys)[s_lock s := LockObj True],
                          calls := calls sys @ [(c, build_request s)] \<rparr>)
          else None)"
| "step k r (Resolve c res) sys =
     (case sessions sys c of
        None \<Rightarrow> None
      | Some s \<Rightarrow>
          if call s = InFlight
          then Some (sys\<lparr> sessions := (sessions sys)(c \<mapsto> on_result s res),
                          heap := (heap sys)[s_lock s := LockObj False] \<rparr>)
          else None)"
| "step k r (Setenv x v) sys = Some (sys\<lparr>environ := (environ sys)(x := v)\<rparr>)"

text \<open>A run: steps one after another, each from the state the previous one left.\<close>

fun execute :: "core \<Rightarrow> running \<Rightarrow> action list \<Rightarrow> system \<Rightarrow> system option" where
  "execute k r [] sys = Some sys"
| "execute k r (a # as) sys =
     (case step k r a sys of None \<Rightarrow> None | Some sys' \<Rightarrow> execute k r as sys')"

definition in_flight :: "system \<Rightarrow> conn set" where
  \<comment> \<open>the sessions whose backend call is outstanding\<close>
  "in_flight sys = {c. \<exists>s. sessions sys c = Some s \<and> call s = InFlight}"

text \<open>
  For stating what one session sees of a run: the actions that are its own, the requests
  issued to the backend on its behalf, the outcome events it has sent, and the backend
  results that came back for it before its connection closed.
\<close>

fun concerns :: "conn \<Rightarrow> action \<Rightarrow> bool" where
  "concerns c (Accept c') = (c' = c)"
| "concerns c (Deliver c' ev) = (c' = c)"
| "concerns c (Acquire c') = (c' = c)"
| "concerns c (Resolve c' res) = (c' = c)"
| "concerns c (Setenv x v) = False"

definition calls_of :: "conn \<Rightarrow> system \<Rightarrow> transcription_request list" where
  "calls_of c sys = map snd (filter (\<lambda>x. fst x = c) (calls sys))"

fun is_outcome :: "out_event \<Rightarrow> bool" where
  "is_outcome (TranscriptEvent t) = True"
| "is_outcome (ErrorEvent f) = True"
| "is_outcome (InfoEvent i) = False"

definition outcomes :: "system \<Rightarrow> conn \<Rightarrow> out_event list" where
  "outcomes sys c = (case sessions sys c of None \<Rightarrow> [] | Some s \<Rightarrow> filter is_outcome (sent s))"

fun answered :: "conn \<Rightarrow> action list \<Rightarrow> transcription_result list" where
  "answered c [] = []"
| "answered c (Resolve c' res # as) =
     (if c' = c then res # answered c as else answered c as)"
| "answered c (Deliver c' Disconnect # as) = (if c' = c then [] else answered c as)"
| "answered c (_ # as) = answered c as"

text \<open>
  What holds of every state the process can reach: each session still has what the
  factory gave it and has a call state only in \<open>Transcribing\<close>; the heap is the one
  \<open>main\<close> built, except that the lock is held exactly while a call is in flight; and no
  two sessions are in flight.
\<close>

definition session_ok :: "running \<Rightarrow> conn \<Rightarrow> session \<Rightarrow> bool" where
  "session_ok r c s \<longleftrightarrow>
     s_conn s = c \<and> s_info s = wyoming_info_ref r \<and> s_args s = args r \<and>
     s_lock s = model_lock r \<and> (call s = NoCall \<longleftrightarrow> phase s \<noteq> Transcribing)"

definition invariant :: "running \<Rightarrow> system \<Rightarrow> bool" where
  "invariant r sys \<longleftrightarrow>
     (\<forall>c s. sessions sys c = Some s \<longrightarrow> session_ok r c s) \<and>
     heap sys = (objects r)[model_lock r := LockObj (in_flight sys \<noteq> {})] \<and>
     (\<forall>c c'. c \<in> in_flight sys \<longrightarrow> c' \<in> in_flight sys \<longrightarrow> c = c')"

subsection \<open>Example inputs\<close>

definition example_externals :: externals where
  "example_externals =
     \<lparr> version = ''1.0.0'',
       WHISPER_LANGUAGES = [''en'', ''no''],
       OPENAI_DEFAULT_MODEL = ''whisper-1'',
       from_uri = (\<lambda>u. Some (AsyncServer u)) \<rparr>"

definition example_core :: core where
  "example_core =
     \<lparr> temperature_policy = Clamp \<rparr>"

definition example_argv :: "cli_arg list" where
  "example_argv = [Api ''openai'', Uri ''tcp://0.0.0.0:10300'']"

definition example_running :: running where
  "example_running = running_of (main example_externals Map.empty example_argv)"



definition example_acts :: "action list" where
  "example_acts =
     [Accept 0, Accept 1,
      Deliver 0 (SessionStart None None (Some (3 / 2))), Deliver 1 (SessionStart None None None),
      Deliver 0 (AudioChunk [1, 2]), Deliver 1 (AudioChunk [9]), Deliver 0 (AudioChunk [3]),
      Setenv ''OPENAI_API_KEY'' (Some ''sk-later''),
      Deliver 0 SessionStop, Deliver 1 SessionStop, Acquire 0]"

section \<open>Properties of the bootstrap\<close>

subsection \<open>Parsing\<close>

lemma supplied_Nil [simp]: "supplied f [] = []"
  by (simp add: supplied_def map_filter_simps)

lemma supplied_Cons: "supplied f (a # argv) = (case f a of None \<Rightarrow> supplied f argv | Some v \<Rightarrow> v # supplied f argv)"
  by (simp add: supplied_def map_filter_simps split: option.splits)

lemma resolved_Cons: "resolved d (v # vs) = resolved (PyStr v) vs"
  by (simp add: resolved_def)

lemma parse_known_args_fields:
  "parse_known_args argv ns ex = Inr (ns', ex') \<Longrightarrow>
     temperature ns' = resolved (temperature ns) (supplied temperature_of argv) \<and>
     openai_api_key ns' = resolved (openai_api_key ns) (supplied key_of argv) \<and>
     api ns' = resolved (api ns) (supplied api_of argv)"
proof (induction argv ns ex rule: parse_known_args.induct)
  case (1 ns extras)
  then show ?case by (simp add: resolved_def)
qed (simp_all add: supplied_Cons resolved_Cons)

lemma main_Serving_D:
  assumes "main ext env argv = Serving r"
  shows "\<exists>a srv. parse_args ext env argv = Inr a \<and> from_uri ext (str_of (uri a)) = Some srv \<and>
           r = \<lparr> args = a, wyoming_info_ref = 0, model_lock = 1, the_server = srv,
                 objects = [InfoObj (wyoming_info ext), LockObj False],
                 effects = [ BasicConfig (debug a) (log_format a), LogDebugArgs, NewInfo 0,
                       FromUri (str_of (uri a)), LogReady, NewLock 1, ServerRun ] \<rparr>"
  using assms by (auto simp: main_def alloc_def split: sum.splits option.splits if_splits)

lemma main_Serving_format:
  assumes "main ext env argv = Serving r"
  shows "validation_search (formatter_format (str_of (log_format (args r))))"
  using assms by (auto simp: main_def alloc_def split: sum.splits option.splits if_splits)

lemma parse_args_fields:
  assumes "parse_args ext env argv = Inr a"
  shows "temperature a = resolved (PyFloat 0) (supplied temperature_of argv)"
    and "openai_api_key a = resolved (environ_get env ''OPENAI_API_KEY'') (supplied key_of argv)"
    and "api a = resolved PyNone (supplied api_of argv)"
  using assms parse_known_args_fields[of argv "parser_defaults ext env" False a False]
  by (auto simp: parse_args_def parser_defaults_def split: sum.splits if_splits)

lemma parse_known_args_append:
  "parse_known_args (xs @ ys) ns ex =
     (case parse_known_args xs ns ex of Inl e \<Rightarrow> Inl e | Inr (ns', ex') \<Rightarrow> parse_known_args ys ns' ex')"
  by (induction xs ns ex rule: parse_known_args.induct) simp_all

lemma parse_known_args_required:
  "api ns1 = api ns2 \<Longrightarrow> uri ns1 = uri ns2 \<Longrightarrow> log_format ns1 = log_format ns2 \<Longrightarrow>
   (\<forall>e. parse_known_args argv ns1 ex = Inl e \<longrightarrow> parse_known_args argv ns2 ex = Inl e) \<and>
   (\<forall>a x. parse_known_args argv ns1 ex = Inr (a, x) \<longrightarrow>
      (\<exists>b. parse_known_args argv ns2 ex = Inr (b, x) \<and> api a = api b \<and> uri a = uri b \<and>
           log_format a = log_format b))"
proof (induction argv ns1 ex arbitrary: ns2 rule: parse_known_args.induct)
  case (2 v rest ns extras)
  from "2.IH"[of "ns2\<lparr>api := PyStr v\<rparr>"] "2.prems" show ?case by simp
next
  case (3 v rest ns extras)
  from "3.IH"[of "ns2\<lparr>uri := PyStr v\<rparr>"] "3.prems" show ?case by simp
next
  case (4 v rest ns extras)
  from "4.IH"[of "ns2\<lparr>openai_api_key := PyStr v\<rparr>"] "4.prems" show ?case by simp
next
  case (5 v rest ns extras)
  from "5.IH"[of "ns2\<lparr>openai_model := PyStr v\<rparr>"] "5.prems" show ?case by simp
next
  case (6 v rest ns extras)
  from "6.IH"[of "ns2\<lparr>language := PyStr v\<rparr>"] "6.prems" show ?case by simp
next
  case (7 v rest ns extras)
  from "7.IH"[of "ns2\<lparr>prompt := PyStr v\<rparr>"] "7.prems" show ?case by simp
next
  case (8 v rest ns extras)
  from "8.IH"[of "ns2\<lparr>temperature := PyStr v\<rparr>"] "8.prems" show ?case by simp
next
  case (9 rest ns extras)
  from "9.IH"[of "ns2\<lparr>debug := True\<rparr>"] "9.prems" show ?case by simp
next
  case (10 v rest ns extras)
  from "10.IH"[of "ns2\<lparr>log_format := PyStr v\<rparr>"] "10.prems" show ?case by simp
next
  case (14 s rest ns extras)
  from "14.IH"[of ns2] "14.prems" show ?case by simp
qed simp_all

lemma is_Serving_environ:
  "is_Serving (main ext env argv) = is_Serving (main ext env' argv)"
proof -
  have eq: "api (parser_defaults ext env) = api (parser_defaults ext env')"
     "uri (parser_defaults ext env) = uri (parser_defaults ext env')"
     "log_format (parser_defaults ext env) = log_format (parser_defaults ext env')"
    by (simp_all add: parser_defaults_def)
  show ?thesis
  proof (cases "parse_known_args argv (parser_defaults ext env) False")
    case (Inl e)
    with parse_known_args_required[OF eq, of argv False] show ?thesis
      by (simp add: main_def parse_args_def)
  next
    case (Inr p)
    obtain a x where p: "p = (a, x)" by (cases p)
    with Inr parse_known_args_required[OF eq, of argv False] obtain b where
      "parse_known_args argv (parser_defaults ext env') False = Inr (b, x)" "api a = api b" "uri a = uri b"
      "log_format a = log_format b"
      by auto
    with Inr p show ?thesis
      by (simp add: main_def parse_args_def alloc_def split: option.splits)
  qed
qed

section \<open>Properties of the running process\<close>

subsection \<open>The invariant\<close>

lemma on_event_frame:
  "s_conn (on_event k h s ev) = s_conn s \<and> s_info (on_event k h s ev) = s_info s \<and>
   s_args (on_event k h s ev) = s_args s \<and> s_lock (on_event k h s ev) = s_lock s"
  by (cases ev)
     (auto simp: onSessionStart_def onAudioChunk_def onSessionStop_def onDescribe_def
        onDisconnect_def violation_def split: sum.splits phase.splits obj.splits)

lemma on_event_call:
  assumes "call s = NoCall \<longleftrightarrow> phase s \<noteq> Transcribing"
  shows "(call (on_event k h s ev) = NoCall \<longleftrightarrow> phase (on_event k h s ev) \<noteq> Transcribing) \<and>
         (call (on_event k h s ev) = InFlight \<longleftrightarrow> call s = InFlight)"
  using assms
  by (cases ev)
     (auto simp: onSessionStart_def onAudioChunk_def onSessionStop_def onDescribe_def
        onDisconnect_def violation_def split: sum.splits phase.splits obj.splits)

lemma session_ok_on_event:
  "session_ok r c s \<Longrightarrow> session_ok r c (on_event k h s ev)"
  using on_event_frame[of k h s ev] on_event_call[of s k h ev]
  by (simp add: session_ok_def)

lemma session_ok_factory: "session_ok r c (handler_factory r c)"
  by (simp add: session_ok_def handler_factory_def WhisperAPIEventHandler_def)

lemma in_flight_upd:
  "in_flight (sys\<lparr>sessions := (sessions sys)(c \<mapsto> s')\<rparr>) =
     (if call s' = InFlight then insert c (in_flight sys) else in_flight sys - {c})"
  by (auto simp: in_flight_def)

lemma in_flight_heap [simp]: "in_flight (sys\<lparr>heap := h\<rparr>) = in_flight sys"
  by (simp add: in_flight_def)

lemma in_flight_calls [simp]: "in_flight (sys\<lparr>calls := cs\<rparr>) = in_flight sys"
  by (simp add: in_flight_def)

lemma in_flight_environ [simp]: "in_flight (sys\<lparr>environ := e\<rparr>) = in_flight sys"
  by (simp add: in_flight_def)

lemma in_flight_same:
  "sessions sys c = Some s \<Longrightarrow> (call s' = InFlight \<longleftrightarrow> call s = InFlight) \<Longrightarrow>
   in_flight (sys\<lparr>sessions := (sessions sys)(c \<mapsto> s')\<rparr>) = in_flight sys"
  by (auto simp: in_flight_def)

lemma in_flight_fresh:
  "sessions sys c = None \<Longrightarrow> call s' \<noteq> InFlight \<Longrightarrow>
   in_flight (sys\<lparr>sessions := (sessions sys)(c \<mapsto> s')\<rparr>) = in_flight sys"
  by (auto simp: in_flight_def)

lemma invariant_initial:
  assumes "main ext env argv = Serving r"
  shows "invariant r (initial env r)"
proof -
  from main_Serving_D[OF assms] obtain a srv where
    "r = \<lparr> args = a, wyoming_info_ref = 0, model_lock = 1, the_server = srv,
                 objects = [InfoObj (wyoming_info ext), LockObj False],
                 effects = [ BasicConfig (debug a) (log_format a), LogDebugArgs, NewInfo 0,
                       FromUri (str_of (uri a)), LogReady, NewLock 1, ServerRun ] \<rparr>" by blast
  then show ?thesis by (simp add: invariant_def initial_def in_flight_def)
qed

lemma invariant_step:
  assumes inv: "invariant r sys" and st: "step k r a sys = Some sys'"
    and lk: "model_lock r < length (objects r)"
  shows "invariant r sys'"
proof (cases a)
  case (Accept c)
  with st have none: "sessions sys c = None"
    and sys': "sys' = sys\<lparr>sessions := (sessions sys)(c \<mapsto> handler_factory r c)\<rparr>"
    by (auto split: option.splits)
  have fl: "in_flight sys' = in_flight sys"
    unfolding sys' by (rule in_flight_fresh[OF none]) (simp add: handler_factory_def WhisperAPIEventHandler_def)
  show ?thesis using inv fl session_ok_factory[of r c]
    by (auto simp: invariant_def sys')
next
  case (Deliver c ev)
  with st obtain s where some: "sessions sys c = Some s"
    and sys': "sys' = sys\<lparr>sessions := (sessions sys)(c \<mapsto> on_event k (heap sys) s ev)\<rparr>"
    by (auto split: option.splits if_splits)
  from inv some have ok: "session_ok r c s" by (simp add: invariant_def)
  then have c: "call s = NoCall \<longleftrightarrow> phase s \<noteq> Transcribing" by (simp add: session_ok_def)
  have fl: "in_flight sys' = in_flight sys"
    unfolding sys' by (rule in_flight_same[OF some]) (use on_event_call[OF c] in simp)
  show ?thesis using inv fl session_ok_on_event[OF ok, of k "heap sys" ev]
    by (auto simp: invariant_def sys')
next
  case (Acquire c)
  with st obtain s where some: "sessions sys c = Some s"
    and aw: "call s = AwaitGate" and free: "lock_free (heap sys) (s_lock s)"
    and sys': "sys' = sys\<lparr> sessions := (sessions sys)(c \<mapsto> s\<lparr>call := InFlight\<rparr>),
                          heap := (heap sys)[s_lock s := LockObj True],
                          calls := calls sys @ [(c, build_request s)] \<rparr>"
    by (auto split: option.splits if_splits)
  from inv some have ok: "session_ok r c s" by (simp add: invariant_def)
  then have l: "s_lock s = model_lock r" by (simp add: session_ok_def)
  from inv have h: "heap sys = (objects r)[model_lock r := LockObj (in_flight sys \<noteq> {})]"
    by (simp add: invariant_def)
  from free l h lk have empty: "in_flight sys = {}"
    by (auto simp: lock_free_def)
  have fl: "in_flight sys' = {c}"
    using empty by (auto simp: sys' in_flight_def)
  have oks: "\<forall>c' s'. sessions sys' c' = Some s' \<longrightarrow> session_ok r c' s'"
    using inv ok aw by (auto simp: invariant_def sys' session_ok_def)
  show ?thesis unfolding invariant_def
    using oks fl h l by (simp add: sys')
next
  case (Resolve c res)
  with st obtain s where some: "sessions sys c = Some s"
    and fly: "call s = InFlight"
    and sys': "sys' = sys\<lparr> sessions := (sessions sys)(c \<mapsto> on_result s res),
                          heap := (heap sys)[s_lock s := LockObj False] \<rparr>"
    by (auto split: option.splits if_splits)
  from inv some have ok: "session_ok r c s" by (simp add: invariant_def)
  then have l: "s_lock s = model_lock r" by (simp add: session_ok_def)
  from inv have h: "heap sys = (objects r)[model_lock r := LockObj (in_flight sys \<noteq> {})]"
    by (simp add: invariant_def)
  from some fly have "c \<in> in_flight sys" by (auto simp: in_flight_def)
  with inv have "in_flight sys = {c}" by (auto simp: invariant_def)
  then have fl: "in_flight sys' = {}"
    by (auto simp: sys' in_flight_def on_result_def split: if_splits)
  have oks: "\<forall>c' s'. sessions sys' c' = Some s' \<longrightarrow> session_ok r c' s'"
    using inv ok by (auto simp: invariant_def sys' session_ok_def on_result_def)
  show ?thesis unfolding invariant_def
    using oks fl h l by (simp add: sys')
next
  case (Setenv x v)
  with st have sys': "sys' = sys\<lparr>environ := (environ sys)(x := v)\<rparr>" by simp
  show ?thesis using inv by (simp add: invariant_def sys')
qed

lemma invariant_run:
  assumes "model_lock r < length (objects r)"
  shows "invariant r sys \<Longrightarrow> execute k r acts sys = Some sys' \<Longrightarrow> invariant r sys'"
proof (induction acts arbitrary: sys)
  case Nil
  then show ?case by simp
next
  case (Cons a acts)
  then show ?case
    by (auto split: option.splits dest: invariant_step[OF _ _ assms])
qed

lemmas format_simps =
  BASIC_FORMAT_def formatter_format_def word_char_def digit_char_def flag_char_def conversion_char_def after_width_def
  after_precision_def conversion_at_def field_at_def

lemmas example_simps =
  example_running_def example_argv_def example_acts_def main_def parse_args_def parser_defaults_def
  environ_get_def example_externals_def alloc_def initial_def handler_factory_def
  WhisperAPIEventHandler_def ready_def onSessionStart_def onAudioChunk_def onSessionStop_def
  request_temperature_def admit_temperature_def clamp_temperature_def example_core_def
  lock_free_def build_request_def format_simps

lemma example_running_eq:
  "example_running =
     \<lparr> args = \<lparr> api = PyStr ''openai'', uri = PyStr ''tcp://0.0.0.0:10300'',
                openai_api_key = PyNone, openai_model = PyStr ''whisper-1'',
                language = PyNone, prompt = PyNone, temperature = PyFloat 0, debug = False,
                log_format = PyStr BASIC_FORMAT \<rparr>,
       wyoming_info_ref = 0, model_lock = 1,
       the_server = AsyncServer ''tcp://0.0.0.0:10300'',
       objects = [InfoObj (wyoming_info example_externals), LockObj False],
       effects = [BasicConfig False (PyStr BASIC_FORMAT), LogDebugArgs, NewInfo 0,
                  FromUri ''tcp://0.0.0.0:10300'', LogReady, NewLock 1, ServerRun] \<rparr>"
  unfolding example_running_def
  by (simp add: example_argv_def main_def parse_args_def parser_defaults_def environ_get_def
      example_externals_def alloc_def format_simps)

lemmas run_simps =
  example_running_eq example_acts_def initial_def handler_factory_def
  WhisperAPIEventHandler_def ready_def onSessionStart_def onAudioChunk_def onSessionStop_def
  request_temperature_def admit_temperature_def clamp_temperature_def example_core_def
  lock_free_def build_request_def

lemma example_main: "main example_externals Map.empty example_argv = Serving example_running"
  by (simp add: example_simps)

lemma example_run:
  "execute example_core example_running example_acts (initial Map.empty example_running) \<noteq> None"
  by (simp add: run_simps)

lemma main_lock: "main ext env argv = Serving r \<Longrightarrow> model_lock r < length (objects r)"
  by (drule main_Serving_D) auto

lemma reachable_invariant:
  assumes "main ext env argv = Serving r" and "execute k r acts (initial env r) = Some sys"
  shows "invariant r sys"
  using invariant_run[OF main_lock[OF assms(1)] invariant_initial[OF assms(1)] assms(2)] .

lemma reachable_heap:
  assumes "main ext env argv = Serving r" and "execute k r acts (initial env r) = Some sys"
  shows "heap sys = [InfoObj (wyoming_info ext), LockObj (in_flight sys \<noteq> {})]"
proof -
  from reachable_invariant[OF assms]
  have "heap sys = (objects r)[model_lock r := LockObj (in_flight sys \<noteq> {})]"
    by (simp add: invariant_def)
  with main_Serving_D[OF assms(1)] show ?thesis by auto
qed

subsection \<open>Mutual exclusion\<close>

text \<open>
  C1. In every state the process can reach after \<open>main\<close> has started serving, whatever
  the number of sessions and however their events, Gate acquisitions and backend results
  interleave, at most one backend call is in flight.
\<close>
theorem at_most_one_backend_call_in_flight:
  assumes "main ext env argv = Serving r" and "execute k r acts (initial env r) = Some sys"
  shows "finite (in_flight sys) \<and> card (in_flight sys) \<le> 1"
proof -
  from reachable_invariant[OF assms]
  have one: "\<forall>c c'. c \<in> in_flight sys \<longrightarrow> c' \<in> in_flight sys \<longrightarrow> c = c'"
    by (simp add: invariant_def)
  show ?thesis
  proof (cases "in_flight sys = {}")
    case True
    then show ?thesis by simp
  next
    case False
    then obtain c where "c \<in> in_flight sys" by blast
    with one have "in_flight sys = {c}" by blast
    then show ?thesis by simp
  qed
qed

theorem at_most_one_backend_call_in_flight_witness:
  "main example_externals Map.empty example_argv = Serving example_running \<and>
   execute example_core example_running example_acts (initial Map.empty example_running) \<noteq> None \<and>
   card (in_flight (the (execute example_core example_running example_acts
     (initial Map.empty example_running)))) \<le> 1"
proof -
  from example_run obtain sys where
    sys: "execute example_core example_running example_acts (initial Map.empty example_running) = Some sys"
    by blast
  from at_most_one_backend_call_in_flight[OF example_main sys] example_main example_run sys
  show ?thesis by simp
qed

subsection \<open>The configured temperature\<close>

lemma parse_args_Inr_D:
  "parse_args ext env argv = Inr a \<Longrightarrow>
   parse_known_args argv (parser_defaults ext env) False = Inr (a, False) \<and>
   api a \<noteq> PyNone \<and> uri a \<noteq> PyNone"
  by (auto simp: parse_args_def split: sum.splits if_splits)

lemma main_any_temperature:
  assumes "main ext env argv = Serving r"
  shows "\<exists>r'. main ext env (argv @ [Temperature v]) = Serving r' \<and> temperature (args r') = PyStr v"
proof -
  from main_Serving_D[OF assms] obtain a srv where a: "parse_args ext env argv = Inr a"
    and u: "from_uri ext (str_of (uri a)) = Some srv" and r: "args r = a"
    by auto
  from main_Serving_format[OF assms] r
  have f: "validation_search (formatter_format (str_of (log_format a)))"
    by simp
  from parse_args_Inr_D[OF a] have
    "parse_args ext env (argv @ [Temperature v]) = Inr (a\<lparr>temperature := PyStr v\<rparr>)"
    by (simp add: parse_args_def parse_known_args_append)
  with u f show ?thesis
    by (simp add: main_def alloc_def)
qed

text \<open>
  C9. The temperature in the configuration handed to every session handler is the float
  \<open>0.0\<close> when \<open>--temperature\<close> is not supplied, and otherwise the command-line
  string itself (the last one given), unconverted. Nor is it checked: a command line that
  starts the server still starts it with any string whatever given as the temperature.
\<close>
theorem temperature_default_float_or_raw_string:
  assumes "main ext env argv = Serving r"
  shows "temperature (s_args (handler_factory r c)) =
           (if supplied temperature_of argv = [] then PyFloat 0
            else PyStr (last (supplied temperature_of argv))) \<and>
         (\<forall>v. \<exists>r'. main ext env (argv @ [Temperature v]) = Serving r' \<and>
                   temperature (s_args (handler_factory r' c)) = PyStr v)"
proof -
  from main_Serving_D[OF assms] obtain a where a: "parse_args ext env argv = Inr a" "args r = a"
    by auto
  from parse_args_fields(1)[OF a(1)] a(2)
  have 1: "temperature (s_args (handler_factory r c)) =
           (if supplied temperature_of argv = [] then PyFloat 0
            else PyStr (last (supplied temperature_of argv)))"
    by (simp add: handler_factory_def WhisperAPIEventHandler_def resolved_def)
  have 2: "\<exists>r'. main ext env (argv @ [Temperature v]) = Serving r' \<and>
                   temperature (s_args (handler_factory r' c)) = PyStr v" for v
    using main_any_temperature[OF assms, of v]
    by (auto simp: handler_factory_def WhisperAPIEventHandler_def)
  from 1 2 show ?thesis by blast
qed

theorem temperature_default_float_or_raw_string_witness:
  "main example_externals Map.empty (example_argv @ [Temperature ''1.5'']) =
     Serving (running_of (main example_externals Map.empty (example_argv @ [Temperature ''1.5'']))) \<and>
   temperature (s_args (handler_factory
     (running_of (main example_externals Map.empty (example_argv @ [Temperature ''1.5'']))) 0)) = PyStr ''1.5'' \<and>
   temperature (s_args (handler_factory example_running 0)) = PyFloat 0"
proof -
  have m: "main example_externals Map.empty (example_argv @ [Temperature ''1.5'']) =
     Serving (running_of (main example_externals Map.empty (example_argv @ [Temperature ''1.5''])))"
    by (simp add: example_simps)
  from temperature_default_float_or_raw_string[OF m, of 0]
    temperature_default_float_or_raw_string[OF example_main, of 0] m
  show ?thesis by (simp add: example_argv_def supplied_def)
qed

subsection \<open>Requests issued to the backend\<close>

lemma step_calls:
  assumes "step k r a sys = Some sys'" and "x \<in> set (calls sys')"
  shows "x \<in> set (calls sys) \<or> (\<exists>c s. a = Acquire c \<and> sessions sys c = Some s \<and> x = (c, build_request s))"
  using assms by (cases a) (auto split: option.splits if_splits)

lemma run_calls:
  assumes P: "\<And>c s. session_ok r c s \<Longrightarrow> P (c, build_request s)"
    and lk: "model_lock r < length (objects r)"
  shows "invariant r sys \<Longrightarrow> \<forall>x \<in> set (calls sys). P x \<Longrightarrow> execute k r acts sys = Some sys' \<Longrightarrow>
         \<forall>x \<in> set (calls sys'). P x"
proof (induction acts arbitrary: sys)
  case Nil
  then show ?case by simp
next
  case (Cons a acts)
  from Cons.prems(3) obtain sys1 where st: "step k r a sys = Some sys1"
    and rn: "execute k r acts sys1 = Some sys'"
    by (auto split: option.splits)
  have inv1: "invariant r sys1" by (rule invariant_step[OF Cons.prems(1) st lk])
  have "\<forall>x \<in> set (calls sys1). P x"
  proof
    fix x assume "x \<in> set (calls sys1)"
    from step_calls[OF st this] show "P x"
    proof
      assume "x \<in> set (calls sys)"
      with Cons.prems(2) show ?thesis by blast
    next
      assume "\<exists>c s. a = Acquire c \<and> sessions sys c = Some s \<and> x = (c, build_request s)"
      then obtain c s where "sessions sys c = Some s" "x = (c, build_request s)" by blast
      with Cons.prems(1) P show ?thesis by (auto simp: invariant_def)
    qed
  qed
  from Cons.IH[OF inv1 this rn] show ?case .
qed

lemma reachable_calls:
  assumes m: "main ext env argv = Serving r" and rn: "execute k r acts (initial env r) = Some sys"
    and P: "\<And>c s. session_ok r c s \<Longrightarrow> P (c, build_request s)"
  shows "\<forall>x \<in> set (calls sys). P x"
proof (rule run_calls[where P = P and r = r and k = k and acts = acts and sys = "initial env r"])
  show "invariant r (initial env r)" by (rule invariant_initial[OF m])
  show "\<forall>x \<in> set (calls (initial env r)). P x" by (simp add: initial_def)
  show "model_lock r < length (objects r)" by (rule main_lock[OF m])
qed (use rn P in auto)

subsection \<open>The credential\<close>

text \<open>
  C10. The cloud credential is resolved once, when \<open>main\<close> parses its arguments: the last
  \<open>--openai-api-key\<close> given, or else \<open>OPENAI_API_KEY\<close> as the environment had it at
  startup, or else \<open>None\<close>. Whatever happens afterwards, changes of the environment
  included, every session and every backend request carries that value.
\<close>
theorem credential_resolved_once_at_startup:
  assumes "main ext env argv = Serving r" and "execute k r acts (initial env r) = Some sys"
  shows "openai_api_key (args r) =
           (if supplied key_of argv = []
            then (case env ''OPENAI_API_KEY'' of None \<Rightarrow> PyNone | Some v \<Rightarrow> PyStr v)
            else PyStr (last (supplied key_of argv))) \<and>
         (\<forall>c s. sessions sys c = Some s \<longrightarrow> openai_api_key (s_args s) = openai_api_key (args r)) \<and>
         (\<forall>c req. (c, req) \<in> set (calls sys) \<longrightarrow> req_credentials req = openai_api_key (args r))"
proof -
  from main_Serving_D[OF assms(1)] obtain a where a: "parse_args ext env argv = Inr a" "args r = a"
    by auto
  have 1: "openai_api_key (args r) =
           (if supplied key_of argv = []
            then (case env ''OPENAI_API_KEY'' of None \<Rightarrow> PyNone | Some v \<Rightarrow> PyStr v)
            else PyStr (last (supplied key_of argv)))"
    using parse_args_fields(2)[OF a(1)] a(2) by (simp add: resolved_def environ_get_def)
  have 2: "\<forall>c s. sessions sys c = Some s \<longrightarrow> openai_api_key (s_args s) = openai_api_key (args r)"
    using reachable_invariant[OF assms] by (auto simp: invariant_def session_ok_def)
  have "\<forall>x \<in> set (calls sys). req_credentials (snd x) = openai_api_key (args r)"
    by (rule reachable_calls[OF assms]) (simp add: build_request_def session_ok_def)
  then have 3: "\<forall>c req. (c, req) \<in> set (calls sys) \<longrightarrow> req_credentials req = openai_api_key (args r)"
    by auto
  from 1 2 3 show ?thesis by blast
qed

theorem credential_resolved_once_at_startup_witness:
  "main example_externals Map.empty example_argv = Serving example_running \<and>
   execute example_core example_running example_acts (initial Map.empty example_running) \<noteq> None \<and>
   environ (the (execute example_core example_running example_acts (initial Map.empty example_running)))
     ''OPENAI_API_KEY'' = Some ''sk-later'' \<and>
   map (\<lambda>x. req_credentials (snd x))
     (calls (the (execute example_core example_running example_acts (initial Map.empty example_running))))
     = [PyNone]"
proof -
  let ?sys = "the (execute example_core example_running example_acts (initial Map.empty example_running))"
  from example_run have
    sys: "execute example_core example_running example_acts (initial Map.empty example_running) = Some ?sys"
    by auto
  have e: "environ ?sys ''OPENAI_API_KEY'' = Some ''sk-later''"
    by (simp add: run_simps)
  have c: "map fst (calls ?sys) = [0]"
    by (simp add: run_simps)
  have k: "openai_api_key (args example_running) = PyNone"
    by (simp add: run_simps)
  from credential_resolved_once_at_startup[OF example_main sys] k
  have "\<forall>x \<in> set (calls ?sys). req_credentials (snd x) = PyNone" by auto
  with c have "map (\<lambda>x. req_credentials (snd x)) (calls ?sys) = [PyNone]"
    by (cases "calls ?sys") auto
  with example_main example_run e show ?thesis by simp
qed

subsection \<open>The missing credential\<close>

text \<open>
  C6, as stated, fails: with \<open>--api openai\<close>, no \<open>--openai-api-key\<close> and no
  \<open>OPENAI_API_KEY\<close> in the environment, \<open>main\<close> reaches \<open>server.run\<close>.
\<close>

theorem missing_credential_starts_counterexample:
  "is_Serving (main example_externals Map.empty [Api ''openai'', Uri ''tcp://0.0.0.0:10300'']) \<and>
   api (args (running_of
     (main example_externals Map.empty [Api ''openai'', Uri ''tcp://0.0.0.0:10300'']))) = PyStr ''openai'' \<and>
   openai_api_key (args (running_of
     (main example_externals Map.empty [Api ''openai'', Uri ''tcp://0.0.0.0:10300'']))) = PyNone"
  by (simp add: main_def parse_args_def parser_defaults_def environ_get_def example_externals_def
      alloc_def format_simps)

text \<open>
  C6, amended. With the cloud backend selected and no credential supplied, startup does not
  look at the credential: the process starts exactly when it would start with a credential
  in the environment, and when it starts every session handler is given \<open>None\<close> as the
  credential.
\<close>

theorem missing_credential_not_checked_at_startup:
  assumes "supplied api_of argv \<noteq> []" and "last (supplied api_of argv) = ''openai''"
    and "supplied key_of argv = []" and "env ''OPENAI_API_KEY'' = None"
  shows "(is_Serving (main ext env argv) \<longleftrightarrow>
            is_Serving (main ext (env(''OPENAI_API_KEY'' \<mapsto> key)) argv)) \<and>
         (\<forall>r c. main ext env argv = Serving r \<longrightarrow>
            api (args r) = PyStr ''openai'' \<and>
            openai_api_key (s_args (handler_factory r c)) = PyNone)"
proof -
  have "\<forall>r c. main ext env argv = Serving r \<longrightarrow>
            api (args r) = PyStr ''openai'' \<and>
            openai_api_key (s_args (handler_factory r c)) = PyNone"
  proof (intro allI impI)
    fix r c assume m: "main ext env argv = Serving r"
    from main_Serving_D[OF m] obtain a where a: "parse_args ext env argv = Inr a" "args r = a"
      by auto
    from parse_args_fields(2,3)[OF a(1)] a(2) assms
    show "api (args r) = PyStr ''openai'' \<and>
            openai_api_key (s_args (handler_factory r c)) = PyNone"
      by (simp add: resolved_def environ_get_def handler_factory_def WhisperAPIEventHandler_def)
  qed
  with is_Serving_environ[of ext env argv "env(''OPENAI_API_KEY'' \<mapsto> key)"]
  show ?thesis by blast
qed

theorem missing_credential_not_checked_at_startup_witness:
  "main example_externals Map.empty example_argv = Serving example_running \<and>
   is_Serving (main example_externals [''OPENAI_API_KEY'' \<mapsto> ''sk-test''] example_argv) \<and>
   openai_api_key (s_args (handler_factory example_running 0)) = PyNone"
proof -
  have a: "supplied api_of example_argv \<noteq> []" "last (supplied api_of example_argv) = ''openai''"
    "supplied key_of example_argv = []" "(Map.empty :: environ) ''OPENAI_API_KEY'' = None"
    by (simp_all add: example_argv_def supplied_def)
  from missing_credential_not_checked_at_startup[OF a, of example_externals "''sk-test''"] example_main
  show ?thesis by simp
qed

subsection \<open>The lock\<close>

text \<open>
  C4. \<open>main\<close> constructs exactly one lock, after everything else it does and
  immediately before \<open>server.run\<close>; the handler factory gives that lock to the handler of
  every connection; and at any later moment the heap still holds that one lock and every
  session refers to it.
\<close>

theorem one_lock_made_at_startup_and_shared:
  assumes "main ext env argv = Serving r" and "execute k r acts (initial env r) = Some sys"
  shows "filter is_lock (objects r) = [LockObj False] \<and>
         objects r ! model_lock r = LockObj False \<and>
         (\<exists>pre. effects r = pre @ [NewLock (model_lock r), ServerRun] \<and>
                (\<forall>e \<in> set pre. \<not> is_NewLock e \<and> e \<noteq> ServerRun)) \<and>
         (\<forall>c. s_lock (handler_factory r c) = model_lock r) \<and>
         length (filter is_lock (heap sys)) = 1 \<and>
         is_lock (heap sys ! model_lock r) \<and>
         (\<forall>c s. sessions sys c = Some s \<longrightarrow> s_lock s = model_lock r)"
proof -
  from main_Serving_D[OF assms(1)] obtain a srv where
    r: "r = \<lparr> args = a, wyoming_info_ref = 0, model_lock = 1, the_server = srv,
                 objects = [InfoObj (wyoming_info ext), LockObj False],
                 effects = [ BasicConfig (debug a) (log_format a), LogDebugArgs, NewInfo 0,
                       FromUri (str_of (uri a)), LogReady, NewLock 1, ServerRun ] \<rparr>"
    by blast
  have 1: "filter is_lock (objects r) = [LockObj False]" "objects r ! model_lock r = LockObj False"
    by (simp_all add: r)
  have "effects r = [BasicConfig (debug a) (log_format a), LogDebugArgs, NewInfo 0,
                       FromUri (str_of (uri a)), LogReady] @ [NewLock (model_lock r), ServerRun] \<and>
        (\<forall>e \<in> set [BasicConfig (debug a) (log_format a), LogDebugArgs, NewInfo 0,
                       FromUri (str_of (uri a)), LogReady]. \<not> is_NewLock e \<and> e \<noteq> ServerRun)"
    by (simp add: r)
  then have 2: "\<exists>pre. effects r = pre @ [NewLock (model_lock r), ServerRun] \<and>
                (\<forall>e \<in> set pre. \<not> is_NewLock e \<and> e \<noteq> ServerRun)"
    by blast
  have 3: "\<forall>c. s_lock (handler_factory r c) = model_lock r"
    by (simp add: handler_factory_def WhisperAPIEventHandler_def)
  from reachable_heap[OF assms] have 4: "length (filter is_lock (heap sys)) = 1"
    "is_lock (heap sys ! model_lock r)"
    by (simp_all add: r)
  from reachable_invariant[OF assms]
  have 5: "\<forall>c s. sessions sys c = Some s \<longrightarrow> s_lock s = model_lock r"
    by (auto simp: invariant_def session_ok_def)
  from 1 2 3 4 5 show ?thesis by blast
qed

theorem one_lock_made_at_startup_and_shared_witness:
  "main example_externals Map.empty example_argv = Serving example_running \<and>
   execute example_core example_running example_acts (initial Map.empty example_running) \<noteq> None \<and>
   filter is_lock (objects example_running) = [LockObj False] \<and>
   s_lock (handler_factory example_running 0) = s_lock (handler_factory example_running 1) \<and>
   length (filter is_lock (heap (the (execute example_core example_running example_acts
     (initial Map.empty example_running))))) = 1"
proof -
  let ?sys = "the (execute example_core example_running example_acts (initial Map.empty example_running))"
  from example_run have
    sys: "execute example_core example_running example_acts (initial Map.empty example_running) = Some ?sys"
    by auto
  from one_lock_made_at_startup_and_shared[OF example_main sys] example_main example_run
  show ?thesis by simp
qed

subsection \<open>The capability descriptor\<close>

text \<open>
  C8. \<open>main\<close> constructs the descriptor once: one ASR program named \<open>whisper-cpp\<close>, with
  its attribution, installed flag and version, and exactly one model, whose languages are
  \<open>WHISPER_LANGUAGES\<close>. Every handler is given that same object, and in every state the
  process reaches the object is still there, alone of its kind and unchanged.
\<close>

theorem descriptor_built_once_shared_and_never_changed:
  assumes "main ext env argv = Serving r" and "execute k r acts (initial env r) = Some sys"
  shows "(\<exists>p m. asr (wyoming_info ext) = [p] \<and> program_name p = ''whisper-cpp'' \<and>
            program_attribution p =
              \<lparr> attribution_name = ''Michael Hansen'',
                attribution_url = ''https://github.com/synesthesiam'' \<rparr> \<and>
            program_installed p \<and> program_version p = version ext \<and>
            program_models p = [m] \<and> model_languages m = WHISPER_LANGUAGES ext) \<and>
         filter is_NewInfo (effects r) = [NewInfo (wyoming_info_ref r)] \<and>
         filter is_info (objects r) = [InfoObj (wyoming_info ext)] \<and>
         objects r ! wyoming_info_ref r = InfoObj (wyoming_info ext) \<and>
         (\<forall>c. s_info (handler_factory r c) = wyoming_info_ref r) \<and>
         filter is_info (heap sys) = [InfoObj (wyoming_info ext)] \<and>
         heap sys ! wyoming_info_ref r = InfoObj (wyoming_info ext) \<and>
         (\<forall>c s. sessions sys c = Some s \<longrightarrow> s_info s = wyoming_info_ref r)"
proof -
  from main_Serving_D[OF assms(1)] obtain a srv where
    r: "r = \<lparr> args = a, wyoming_info_ref = 0, model_lock = 1, the_server = srv,
                 objects = [InfoObj (wyoming_info ext), LockObj False],
                 effects = [ BasicConfig (debug a) (log_format a), LogDebugArgs, NewInfo 0,
                       FromUri (str_of (uri a)), LogReady, NewLock 1, ServerRun ] \<rparr>"
    by blast
  have 1: "\<exists>p m. asr (wyoming_info ext) = [p] \<and> program_name p = ''whisper-cpp'' \<and>
            program_attribution p =
              \<lparr> attribution_name = ''Michael Hansen'',
                attribution_url = ''https://github.com/synesthesiam'' \<rparr> \<and>
            program_installed p \<and> program_version p = version ext \<and>
            program_models p = [m] \<and> model_languages m = WHISPER_LANGUAGES ext"
    by (simp add: wyoming_info_def)
  have 2: "filter is_NewInfo (effects r) = [NewInfo (wyoming_info_ref r)]"
    "filter is_info (objects r) = [InfoObj (wyoming_info ext)]"
    "objects r ! wyoming_info_ref r = InfoObj (wyoming_info ext)"
    by (simp_all add: r)
  have 3: "\<forall>c. s_info (handler_factory r c) = wyoming_info_ref r"
    by (simp add: handler_factory_def WhisperAPIEventHandler_def)
  from reachable_heap[OF assms] have 4: "filter is_info (heap sys) = [InfoObj (wyoming_info ext)]"
    "heap sys ! wyoming_info_ref r = InfoObj (wyoming_info ext)"
    by (simp_all add: r)
  from reachable_invariant[OF assms]
  have 5: "\<forall>c s. sessions sys c = Some s \<longrightarrow> s_info s = wyoming_info_ref r"
    by (auto simp: invariant_def session_ok_def)
  from 1 2 3 4 5 show ?thesis by blast
qed

theorem descriptor_built_once_shared_and_never_changed_witness:
  "main example_externals Map.empty example_argv = Serving example_running \<and>
   execute example_core example_running example_acts (initial Map.empty example_running) \<noteq> None \<and>
   s_info (handler_factory example_running 0) = s_info (handler_factory example_running 1) \<and>
   heap (the (execute example_core example_running example_acts (initial Map.empty example_running)))
     ! wyoming_info_ref example_running = InfoObj (wyoming_info example_externals)"
proof -
  let ?sys = "the (execute example_core example_running example_acts (initial Map.empty example_running))"
  from example_run have
    sys: "execute example_core example_running example_acts (initial Map.empty example_running) = Some ?sys"
    by auto
  from descriptor_built_once_shared_and_never_changed[OF example_main sys] example_main example_run
  show ?thesis by simp
qed

subsection \<open>Release of the Gate\<close>

lemma run_append:
  "execute k r (xs @ ys) sys =
     (case execute k r xs sys of None \<Rightarrow> None | Some sys' \<Rightarrow> execute k r ys sys')"
  by (induction xs arbitrary: sys) (auto split: option.splits)

lemma reachable_lock:
  assumes "main ext env argv = Serving r" and "execute k r acts (initial env r) = Some sys"
  shows "lock_free (heap sys) (model_lock r) \<longleftrightarrow> in_flight sys = {}"
  using reachable_heap[OF assms] main_Serving_D[OF assms(1)]
  by (auto simp: lock_free_def)

lemma resolve_frees:
  assumes m: "main ext env argv = Serving r" and rn: "execute k r acts (initial env r) = Some sys"
    and s: "sessions sys c = Some s" and fl: "call s = InFlight"
  shows "\<exists>sys'. step k r (Resolve c res) sys = Some sys' \<and>
           lock_free (heap sys') (model_lock r) \<and> in_flight sys' = {} \<and>
           (\<forall>c' s'. sessions sys' c' = Some s' \<longrightarrow> call s' = AwaitGate \<longrightarrow>
              (\<exists>sys''. step k r (Acquire c') sys' = Some sys'' \<and> c' \<in> in_flight sys''))"
proof -
  let ?sys' = "sys\<lparr> sessions := (sessions sys)(c \<mapsto> on_result s res),
                    heap := (heap sys)[s_lock s := LockObj False] \<rparr>"
  have st: "step k r (Resolve c res) sys = Some ?sys'" using s fl by simp
  have "execute k r (acts @ [Resolve c res]) (initial env r) = Some ?sys'"
    using rn st by (simp add: run_append)
  note reach' = this
  have inv': "invariant r ?sys'" by (rule reachable_invariant[OF m reach'])
  have "c \<in> in_flight sys" using s fl by (auto simp: in_flight_def)
  moreover from reachable_invariant[OF m rn]
  have "\<forall>c c'. c \<in> in_flight sys \<longrightarrow> c' \<in> in_flight sys \<longrightarrow> c = c'" by (simp add: invariant_def)
  ultimately have "in_flight sys = {c}" by blast
  then have e: "in_flight ?sys' = {}"
    by (auto simp: in_flight_def on_result_def split: if_splits)
  with reachable_lock[OF m reach'] have free: "lock_free (heap ?sys') (model_lock r)" by simp
  have "\<exists>sys''. step k r (Acquire c') ?sys' = Some sys'' \<and> c' \<in> in_flight sys''"
    if "sessions ?sys' c' = Some s'" "call s' = AwaitGate" for c' s'
  proof -
    from inv' that(1) have "s_lock s' = model_lock r"
      by (simp add: invariant_def session_ok_def del: fun_upd_apply)
    with that free have
      "step k r (Acquire c') ?sys' =
         Some (?sys'\<lparr> sessions := (sessions ?sys')(c' \<mapsto> s'\<lparr>call := InFlight\<rparr>),
                       heap := (heap ?sys')[s_lock s' := LockObj True],
                       calls := calls ?sys' @ [(c', build_request s')] \<rparr>)"
      by (simp del: fun_upd_apply)
    moreover have
      "c' \<in> in_flight (?sys'\<lparr> sessions := (sessions ?sys')(c' \<mapsto> s'\<lparr>call := InFlight\<rparr>),
                       heap := (heap ?sys')[s_lock s' := LockObj True],
                       calls := calls ?sys' @ [(c', build_request s')] \<rparr>)"
      by (simp add: in_flight_def)
    ultimately show ?thesis by blast
  qed
  with st free e show ?thesis by blast
qed

text \<open>
  C3. In every state the process can reach, the Gate is held only while a backend call is
  in flight, and when that call resolves, whether with a transcript or with a failure,
  and whether or not its session has disconnected in the meantime, the Gate is released:
  any session then waiting for it can acquire it.
\<close>

theorem gate_released_when_call_resolves:
  assumes "main ext env argv = Serving r" and "execute k r acts (initial env r) = Some sys"
  shows "(lock_free (heap sys) (model_lock r) \<longleftrightarrow> in_flight sys = {}) \<and>
         (\<forall>c s res. sessions sys c = Some s \<and> call s = InFlight \<longrightarrow>
            (\<exists>sys'. step k r (Resolve c res) sys = Some sys' \<and>
               lock_free (heap sys') (model_lock r) \<and> in_flight sys' = {} \<and>
               (\<forall>c' s'. sessions sys' c' = Some s' \<longrightarrow> call s' = AwaitGate \<longrightarrow>
                  (\<exists>sys''. step k r (Acquire c') sys' = Some sys'' \<and> c' \<in> in_flight sys''))))"
  using reachable_lock[OF assms] resolve_frees[OF assms] by blast

theorem gate_released_when_call_resolves_witness:
  "main example_externals Map.empty example_argv = Serving example_running \<and>
   execute example_core example_running (example_acts @ [Deliver 0 Disconnect])
     (initial Map.empty example_running) \<noteq> None \<and>
   (\<exists>sys'. step example_core example_running (Resolve 0 (Failure (BackendRejected 401 ''Unauthorized'')))
       (the (execute example_core example_running (example_acts @ [Deliver 0 Disconnect])
         (initial Map.empty example_running))) = Some sys' \<and>
      lock_free (heap sys') (model_lock example_running) \<and>
      (\<exists>sys''. step example_core example_running (Acquire 1) sys' = Some sys''))"
proof -
  let ?run = "execute example_core example_running (example_acts @ [Deliver 0 Disconnect])
     (initial Map.empty example_running)"
  let ?sys = "the ?run"
  have ne: "?run \<noteq> None" by (simp add: run_simps onDisconnect_def)
  then have sys: "?run = Some ?sys" by auto
  have s0: "sessions ?sys 0 \<noteq> None" "call (the (sessions ?sys 0)) = InFlight"
    "\<not> connected (the (sessions ?sys 0))"
    by (simp_all add: run_simps onDisconnect_def)
  have s1: "sessions ?sys 1 \<noteq> None" "call (the (sessions ?sys 1)) = AwaitGate"
    by (simp_all add: run_simps onDisconnect_def)
  from s0 obtain s where s: "sessions ?sys 0 = Some s" "call s = InFlight" by auto
  from gate_released_when_call_resolves[OF example_main sys] s
  obtain sys' where
    st: "step example_core example_running (Resolve 0 (Failure (BackendRejected 401 ''Unauthorized''))) ?sys
          = Some sys'"
    and fr: "lock_free (heap sys') (model_lock example_running)"
    and aq: "\<forall>c' s'. sessions sys' c' = Some s' \<longrightarrow> call s' = AwaitGate \<longrightarrow>
                  (\<exists>sys''. step example_core example_running (Acquire c') sys' = Some sys'' \<and>
                     c' \<in> in_flight sys'')"
    by blast
  from st s have "sessions sys' 1 = sessions ?sys 1" by auto
  with s1 obtain s' where "sessions sys' 1 = Some s'" "call s' = AwaitGate" by auto
  with aq obtain sys'' where "step example_core example_running (Acquire 1) sys' = Some sys''"
    by blast
  with st fr example_main ne show ?thesis by blast
qed

subsection \<open>The audio delivered to the backend\<close>

lemma step_frame:
  assumes "step k r a sys = Some sys'" and "\<not> concerns c a"
  shows "sessions sys' c = sessions sys c \<and> calls_of c sys' = calls_of c sys"
  using assms by (cases a) (auto simp: calls_of_def split: option.splits if_splits)

lemma run_frame:
  "execute k r acts sys = Some sys' \<Longrightarrow> filter (concerns c) acts = [] \<Longrightarrow>
   sessions sys' c = sessions sys c \<and> calls_of c sys' = calls_of c sys"
proof (induction acts arbitrary: sys)
  case Nil
  then show ?case by simp
next
  case (Cons a acts)
  from Cons.prems(1) obtain sys1 where st: "step k r a sys = Some sys1"
    and rn: "execute k r acts sys1 = Some sys'"
    by (auto split: option.splits)
  from Cons.prems(2) have na: "\<not> concerns c a" and rest: "filter (concerns c) acts = []"
    by (auto split: if_splits)
  from step_frame[OF st na] Cons.IH[OF rn rest] show ?case by simp
qed

lemma peel:
  assumes rn: "execute k r acts sys = Some sys'" and f: "filter (concerns c) acts = a # rest"
  shows "\<exists>sysA sysB acts2. sessions sysA c = sessions sys c \<and> calls_of c sysA = calls_of c sys \<and>
           step k r a sysA = Some sysB \<and> execute k r acts2 sysB = Some sys' \<and>
           filter (concerns c) acts2 = rest"
proof -
  from f obtain us vs where acts: "acts = us @ a # vs" and us: "\<forall>u \<in> set us. \<not> concerns c u"
    and vs: "rest = filter (concerns c) vs"
    by (auto simp: filter_eq_Cons_iff)
  from rn acts obtain sysA where rA: "execute k r us sys = Some sysA"
    and rB: "execute k r (a # vs) sysA = Some sys'"
    by (auto simp: run_append split: option.splits)
  from rB obtain sysB where st: "step k r a sysA = Some sysB" and rC: "execute k r vs sysB = Some sys'"
    by (auto split: option.splits)
  from us have "filter (concerns c) us = []" by (simp add: filter_empty_conv)
  from run_frame[OF rA this] st rC vs show ?thesis by blast
qed

lemma chunks_run:
  "execute k r acts sys = Some sys' \<Longrightarrow> sessions sys c = Some s \<Longrightarrow>
   filter (concerns c) acts = map (\<lambda>b. Deliver c (AudioChunk b)) chunks @ rest \<Longrightarrow>
   \<exists>sysM actsM sM. execute k r actsM sysM = Some sys' \<and> filter (concerns c) actsM = rest \<and>
      sessions sysM c = Some sM \<and> calls_of c sysM = calls_of c sys \<and>
      phase sM = phase s \<and> call sM = call s \<and> act_temperature sM = act_temperature s \<and>
      (phase s = Receiving \<longrightarrow> buffer sM = buffer s @ chunks)"
proof (induction chunks arbitrary: acts sys s)
  case Nil
  then show ?case by auto
next
  case (Cons b chunks)
  from Cons.prems(3) have
    f: "filter (concerns c) acts =
          Deliver c (AudioChunk b) # (map (\<lambda>b. Deliver c (AudioChunk b)) chunks @ rest)"
    by simp
  from peel[OF Cons.prems(1) f] obtain sysA sysB acts2 where
    A: "sessions sysA c = sessions sys c" "calls_of c sysA = calls_of c sys"
    and st: "step k r (Deliver c (AudioChunk b)) sysA = Some sysB"
    and rn: "execute k r acts2 sysB = Some sys'"
    and f2: "filter (concerns c) acts2 = map (\<lambda>b. Deliver c (AudioChunk b)) chunks @ rest"
    by blast
  from A(1) Cons.prems(2) have sA: "sessions sysA c = Some s" by simp
  with st have sB: "sessions sysB c = Some (onAudioChunk s b)"
    and cB: "calls_of c sysB = calls_of c sysA"
    by (auto simp: calls_of_def split: if_splits)
  from Cons.IH[OF rn sB f2] obtain sysM actsM sM where
    M: "execute k r actsM sysM = Some sys'" "filter (concerns c) actsM = rest"
      "sessions sysM c = Some sM" "calls_of c sysM = calls_of c sysB"
      "phase sM = phase (onAudioChunk s b)" "call sM = call (onAudioChunk s b)"
      "act_temperature sM = act_temperature (onAudioChunk s b)"
      "phase (onAudioChunk s b) = Receiving \<longrightarrow> buffer sM = buffer (onAudioChunk s b) @ chunks"
    by blast
  have "phase (onAudioChunk s b) = phase s" "call (onAudioChunk s b) = call s"
    "act_temperature (onAudioChunk s b) = act_temperature s"
    "phase s = Receiving \<longrightarrow> buffer (onAudioChunk s b) = buffer s @ [b]"
    by (simp_all add: onAudioChunk_def violation_def)
  with M cB A(2) show ?case by auto
qed

lemma flush_request:
  assumes ok: "session_ok r c s0" and s0: "sessions sys0 c = Some s0" and idle: "phase s0 = Idle"
    and f: "filter (concerns c) acts =
              Deliver c (SessionStart l p t) # map (\<lambda>b. Deliver c (AudioChunk b)) chunks @
                [Deliver c SessionStop, Acquire c]"
    and rn: "execute k r acts sys0 = Some sys1"
  shows "\<exists>req. calls_of c sys1 = calls_of c sys0 @ [req] \<and> req_audio req = concat chunks \<and>
           request_temperature k (s_args s0) t = Inr (req_temperature req)"
proof -
  from ok idle have nc: "call s0 = NoCall" by (simp add: session_ok_def)
  from peel[OF rn f] obtain sysA sysB acts2 where
    A: "sessions sysA c = sessions sys0 c" "calls_of c sysA = calls_of c sys0"
    and st: "step k r (Deliver c (SessionStart l p t)) sysA = Some sysB"
    and rn2: "execute k r acts2 sysB = Some sys1"
    and f2: "filter (concerns c) acts2 =
               map (\<lambda>b. Deliver c (AudioChunk b)) chunks @ [Deliver c SessionStop, Acquire c]"
    by blast
  let ?s1 = "onSessionStart k s0 l p t"
  from A(1) s0 st have sB: "sessions sysB c = Some ?s1" and cB: "calls_of c sysB = calls_of c sysA"
    by (auto simp: calls_of_def split: if_splits)
  have s1: "call ?s1 = NoCall"
    "(phase ?s1 = Receiving \<and> buffer ?s1 = []) \<or> phase ?s1 = Idle"
    using nc idle by (auto simp: onSessionStart_def violation_def split: sum.splits)
  from chunks_run[OF rn2 sB f2] obtain sysM actsM sM where
    M: "execute k r actsM sysM = Some sys1"
      "filter (concerns c) actsM = [Deliver c SessionStop, Acquire c]"
      "sessions sysM c = Some sM" "calls_of c sysM = calls_of c sysB"
      "phase sM = phase ?s1" "call sM = call ?s1"
      "phase ?s1 = Receiving \<longrightarrow> buffer sM = buffer ?s1 @ chunks"
      "act_temperature sM = act_temperature ?s1"
    by blast
  from peel[OF M(1,2)] obtain sysC sysD acts3 where
    C: "sessions sysC c = sessions sysM c" "calls_of c sysC = calls_of c sysM"
    and st3: "step k r (Deliver c SessionStop) sysC = Some sysD"
    and rn3: "execute k r acts3 sysD = Some sys1"
    and f3: "filter (concerns c) acts3 = [Acquire c]"
    by blast
  from C(1) M(3) st3 have sD: "sessions sysD c = Some (onSessionStop sM)"
    and cD: "calls_of c sysD = calls_of c sysC"
    by (auto simp: calls_of_def split: if_splits)
  from peel[OF rn3 f3] obtain sysE sysF acts4 where
    E: "sessions sysE c = sessions sysD c" "calls_of c sysE = calls_of c sysD"
    and st4: "step k r (Acquire c) sysE = Some sysF"
    and rn4: "execute k r acts4 sysF = Some sys1"
    and f4: "filter (concerns c) acts4 = []"
    by blast
  from E(1) sD have sE: "sessions sysE c = Some (onSessionStop sM)" by simp
  with st4 have aw: "call (onSessionStop sM) = AwaitGate"
    and cF: "calls_of c sysF = calls_of c sysE @ [build_request (onSessionStop sM)]"
    by (auto simp: calls_of_def split: if_splits)
  from aw M(5,6) s1 have rec: "phase ?s1 = Receiving" "buffer ?s1 = []"
    by (auto simp: onSessionStop_def violation_def split: if_splits)
  with M(5,7) have "buffer (onSessionStop sM) = chunks"
    by (simp add: onSessionStop_def)
  then have audio: "req_audio (build_request (onSessionStop sM)) = concat chunks"
    by (simp add: build_request_def)
  from rec(1) idle have "request_temperature k (s_args s0) t = Inr (act_temperature ?s1)"
    by (auto simp: onSessionStart_def violation_def split: sum.splits)
  with M(5,8) rec(1) have
    temp: "request_temperature k (s_args s0) t =
             Inr (req_temperature (build_request (onSessionStop sM)))"
    by (simp add: onSessionStop_def build_request_def)
  from run_frame[OF rn4 f4] have "calls_of c sys1 = calls_of c sysF" by simp
  with cF E(2) cD C(2) M(4) cB A(2) audio temp show ?thesis by simp
qed

text \<open>
  C2. Take any reachable state in which a session is \<open>Idle\<close>, and any continuation in
  which that session's own steps are a session-start, then audio chunks, then a
  session-stop, then the acquisition of the Gate, interleaved at will with the steps of
  other sessions. Then exactly one more request is issued to the backend for the session,
  and its audio is the concatenation of the chunks in the order they arrived.
\<close>

theorem backend_receives_chunks_in_arrival_order:
  assumes "main ext env argv = Serving r" and "execute k r acts0 (initial env r) = Some sys0"
    and "sessions sys0 c = Some s0" and "phase s0 = Idle"
    and "filter (concerns c) acts =
           Deliver c (SessionStart l p t) # map (\<lambda>b. Deliver c (AudioChunk b)) chunks @
             [Deliver c SessionStop, Acquire c]"
    and "execute k r acts sys0 = Some sys1"
  shows "\<exists>req. calls_of c sys1 = calls_of c sys0 @ [req] \<and> req_audio req = concat chunks"
proof -
  from reachable_invariant[OF assms(1,2)] assms(3) have "session_ok r c s0"
    by (simp add: invariant_def)
  from flush_request[OF this assms(3-6)] show ?thesis by blast
qed

theorem backend_receives_chunks_in_arrival_order_witness:
  "main example_externals Map.empty example_argv = Serving example_running \<and>
   execute example_core example_running [Accept 0, Accept 1] (initial Map.empty example_running) \<noteq> None \<and>
   execute example_core example_running (drop 2 example_acts)
     (the (execute example_core example_running [Accept 0, Accept 1] (initial Map.empty example_running)))
     \<noteq> None \<and>
   map req_audio (calls_of 0
     (the (execute example_core example_running (drop 2 example_acts)
       (the (execute example_core example_running [Accept 0, Accept 1]
         (initial Map.empty example_running)))))) = [ [1, 2, 3] ]"
proof -
  let ?sys0 = "the (execute example_core example_running [Accept 0, Accept 1] (initial Map.empty example_running))"
  let ?sys1 = "the (execute example_core example_running (drop 2 example_acts) ?sys0)"
  have ne0: "execute example_core example_running [Accept 0, Accept 1] (initial Map.empty example_running) \<noteq> None"
    by (simp add: run_simps)
  then have r0: "execute example_core example_running [Accept 0, Accept 1] (initial Map.empty example_running)
     = Some ?sys0" by auto
  have ne1: "execute example_core example_running (drop 2 example_acts) ?sys0 \<noteq> None"
    by (simp add: run_simps)
  then have r1: "execute example_core example_running (drop 2 example_acts) ?sys0 = Some ?sys1" by auto
  have s: "sessions ?sys0 0 = Some (handler_factory example_running 0)"
    "phase (handler_factory example_running 0) = Idle" "calls_of 0 ?sys0 = []"
    by (simp_all add: run_simps calls_of_def)
  have f: "filter (concerns 0) (drop 2 example_acts) =
     Deliver 0 (SessionStart None None (Some (3 / 2))) #
       map (\<lambda>b. Deliver 0 (AudioChunk b)) [ [1, 2], [3] ] @ [Deliver 0 SessionStop, Acquire 0]"
    by (simp add: example_acts_def)
  from backend_receives_chunks_in_arrival_order[OF example_main r0 s(1,2) f r1] s(3)
  have "map req_audio (calls_of 0 ?sys1) = [concat [ [1, 2], [3] ]]" by auto
  with example_main ne0 ne1 show ?thesis by simp
qed

subsection \<open>Outcome events\<close>

lemma on_event_outcomes:
  "filter is_outcome (sent (on_event k h s ev)) = filter is_outcome (sent s)"
  by (cases ev)
     (auto simp: onSessionStart_def onAudioChunk_def onSessionStop_def onDescribe_def
        onDisconnect_def violation_def split: sum.splits phase.splits obj.splits)

lemma on_event_connected:
  "ev \<noteq> Disconnect \<Longrightarrow> connected (on_event k h s ev) = connected s"
  by (cases ev)
     (auto simp: onSessionStart_def onAudioChunk_def onSessionStop_def onDescribe_def
        violation_def split: sum.splits obj.splits)

lemma onDisconnect_disconnected: "\<not> connected (onDisconnect s)"
  by (simp add: onDisconnect_def split: phase.splits)

lemma is_outcome_outcome_event [simp]: "is_outcome (outcome_event res)"
  by (cases res) simp_all

lemma step_closed_outcomes:
  assumes st: "step k r a sys = Some sys'" and s: "sessions sys c = Some s" and d: "\<not> connected s"
  shows "(\<exists>s'. sessions sys' c = Some s' \<and> \<not> connected s') \<and> outcomes sys' c = outcomes sys c"
proof (cases a)
  case (Accept c')
  with st s d show ?thesis by (auto simp: outcomes_def split: option.splits if_splits)
next
  case (Deliver c' ev)
  with st s d show ?thesis
    by (auto simp: outcomes_def ready_def split: option.splits if_splits)
next
  case (Acquire c')
  with st s d show ?thesis by (auto simp: outcomes_def split: option.splits if_splits)
next
  case (Resolve c' res)
  with st s d show ?thesis
    by (auto simp: outcomes_def on_result_def split: option.splits if_splits)
next
  case (Setenv x v)
  with st s d show ?thesis by (auto simp: outcomes_def)
qed

lemma execute_closed_outcomes:
  "execute k r acts sys = Some sys' \<Longrightarrow> sessions sys c = Some s \<Longrightarrow> \<not> connected s \<Longrightarrow>
   outcomes sys' c = outcomes sys c"
proof (induction acts arbitrary: sys s)
  case Nil
  then show ?case by simp
next
  case (Cons a acts)
  from Cons.prems(1) obtain sys1 where st: "step k r a sys = Some sys1"
    and rn: "execute k r acts sys1 = Some sys'"
    by (auto split: option.splits)
  from step_closed_outcomes[OF st Cons.prems(2,3)] obtain s1 where
    s1: "sessions sys1 c = Some s1" "\<not> connected s1" and o: "outcomes sys1 c = outcomes sys c"
    by blast
  from Cons.IH[OF rn s1] o show ?case by simp
qed

lemma step_live_outcomes:
  assumes st: "step k r a sys = Some sys'"
    and live: "\<And>s. sessions sys c = Some s \<Longrightarrow> connected s"
    and nd: "a \<noteq> Deliver c Disconnect"
  shows "(\<forall>s'. sessions sys' c = Some s' \<longrightarrow> connected s') \<and>
         outcomes sys' c = outcomes sys c @ map outcome_event (answered c [a])"
proof (cases a)
  case (Accept c')
  with st have none: "sessions sys c' = None"
    and sys': "sys' = sys\<lparr>sessions := (sessions sys)(c' \<mapsto> handler_factory r c')\<rparr>"
    by (auto split: option.splits)
  show ?thesis
  proof (cases "c = c'")
    case True
    with none sys' Accept show ?thesis
      by (simp add: outcomes_def handler_factory_def WhisperAPIEventHandler_def)
  next
    case False
    with sys' Accept live show ?thesis by (simp add: outcomes_def)
  qed
next
  case (Deliver c' ev)
  with st obtain s where s: "sessions sys c' = Some s"
    and sys': "sys' = sys\<lparr>sessions := (sessions sys)(c' \<mapsto> on_event k (heap sys) s ev)\<rparr>"
    by (auto split: option.splits if_splits)
  show ?thesis
  proof (cases "c = c'")
    case True
    with nd Deliver have ev: "ev \<noteq> Disconnect" by simp
    then have a: "answered c [a] = []" using Deliver by (cases ev) simp_all
    from True s sys' live on_event_connected[OF ev, of k "heap sys" s] a show ?thesis
      by (simp add: outcomes_def on_event_outcomes)
  next
    case False
    then have "answered c [a] = []" using Deliver by (cases ev) simp_all
    with False sys' live show ?thesis by (simp add: outcomes_def)
  qed
next
  case (Acquire c')
  with st live show ?thesis
    by (auto simp: outcomes_def split: option.splits if_splits)
next
  case (Resolve c' res)
  with st live show ?thesis
    by (auto simp: outcomes_def on_result_def split: option.splits if_splits)
next
  case (Setenv x v)
  with st live show ?thesis by (auto simp: outcomes_def)
qed

lemma answered_Cons:
  "a \<noteq> Deliver c Disconnect \<Longrightarrow> answered c (a # as) = answered c [a] @ answered c as"
proof (cases a)
  case (Deliver c' ev)
  assume "a \<noteq> Deliver c Disconnect"
  with Deliver show ?thesis by (cases ev) auto
qed auto

lemma execute_outcomes:
  "execute k r acts sys = Some sys' \<Longrightarrow> (\<And>s. sessions sys c = Some s \<Longrightarrow> connected s) \<Longrightarrow>
   outcomes sys' c = outcomes sys c @ map outcome_event (answered c acts)"
proof (induction acts arbitrary: sys)
  case Nil
  then show ?case by simp
next
  case (Cons a acts)
  from Cons.prems(1) obtain sys1 where st: "step k r a sys = Some sys1"
    and rn: "execute k r acts sys1 = Some sys'"
    by (auto split: option.splits)
  show ?case
  proof (cases "a = Deliver c Disconnect")
    case True
    with st obtain s where s: "sessions sys c = Some s"
      and sys1: "sys1 = sys\<lparr>sessions := (sessions sys)(c \<mapsto> onDisconnect s)\<rparr>"
      by (auto split: option.splits if_splits)
    have s1: "sessions sys1 c = Some (onDisconnect s)" by (simp add: sys1)
    have o1: "outcomes sys1 c = outcomes sys c"
      using s by (simp add: sys1 outcomes_def onDisconnect_def split: phase.splits)
    from execute_closed_outcomes[OF rn s1 onDisconnect_disconnected] o1 True
    show ?thesis by simp
  next
    case False
    from step_live_outcomes[OF st Cons.prems(2) False]
    have live1: "\<And>s'. sessions sys1 c = Some s' \<Longrightarrow> connected s'"
      and o1: "outcomes sys1 c = outcomes sys c @ map outcome_event (answered c [a])"
      by blast+
    from Cons.IH[OF rn live1] o1 answered_Cons[OF False, of acts]
    show ?thesis by simp
  qed
qed

lemma resolve_outcome:
  assumes s: "sessions sys c = Some s" and fl: "call s = InFlight"
  shows "\<exists>sys' s'. step k r (Resolve c res) sys = Some sys' \<and> sessions sys' c = Some s' \<and>
           sent s' = sent s @ (if connected s then [outcome_event res] else []) \<and>
           phase s' = (if connected s then Idle else Closed) \<and> buffer s' = [] \<and>
           connected s' = connected s \<and>
           (\<forall>c'. c' \<noteq> c \<longrightarrow> sessions sys' c' = sessions sys c') \<and>
           (\<forall>c'. sessions sys' c' = None \<longrightarrow> step k r (Accept c') sys' \<noteq> None)"
  using assms by (simp add: on_result_def)

text \<open>
  C5, as stated, fails: a session that sends a session-start and one audio chunk and then
  closes its transport enters \<open>Transcribing\<close> with the buffered data, its call is issued
  and the backend returns a transcript, and the session ends \<open>Closed\<close> having sent
  nothing.
\<close>

theorem disconnected_transcription_sends_nothing_counterexample:
  "execute example_core example_running
     [Accept 0, Deliver 0 (SessionStart None None None), Deliver 0 (AudioChunk [1]),
      Deliver 0 Disconnect, Acquire 0, Resolve 0 (TranscriptText ''hi'')]
     (initial Map.empty example_running) \<noteq> None \<and>
   map req_audio (calls_of 0 (the (execute example_core example_running
     [Accept 0, Deliver 0 (SessionStart None None None), Deliver 0 (AudioChunk [1]),
      Deliver 0 Disconnect, Acquire 0, Resolve 0 (TranscriptText ''hi'')]
     (initial Map.empty example_running)))) = [ [1] ] \<and>
   map_option phase (sessions (the (execute example_core example_running
     [Accept 0, Deliver 0 (SessionStart None None None), Deliver 0 (AudioChunk [1]),
      Deliver 0 Disconnect, Acquire 0, Resolve 0 (TranscriptText ''hi'')]
     (initial Map.empty example_running))) 0) = Some Closed \<and>
   map_option sent (sessions (the (execute example_core example_running
     [Accept 0, Deliver 0 (SessionStart None None None), Deliver 0 (AudioChunk [1]),
      Deliver 0 Disconnect, Acquire 0, Resolve 0 (TranscriptText ''hi'')]
     (initial Map.empty example_running))) 0) = Some []"
  by (simp add: run_simps onDisconnect_def on_result_def calls_of_def)

text \<open>
  C5, amended. The outcome events a session has sent are exactly the images of the
  backend results that came back for it while it was connected, one each and in order: a
  transcript event for a transcript, an error event carrying the failure for a failure.
  A result that comes back after the session has disconnected is discarded and nothing
  is sent for it. Either way the resolution of a call, with whatever result, is a step
  the process can always take: it sends at most that one event on the session's own
  connection, touches no other session, and leaves the dispatcher able to accept a new
  connection.
\<close>

theorem one_outcome_event_per_connected_transcription:
  assumes "main ext env argv = Serving r" and "execute k r acts (initial env r) = Some sys"
  shows "(\<forall>c s. sessions sys c = Some s \<longrightarrow>
            filter is_outcome (sent s) = map outcome_event (answered c acts)) \<and>
         (\<forall>t. outcome_event (TranscriptText t) = TranscriptEvent t) \<and>
         (\<forall>f. outcome_event (Failure f) = ErrorEvent f) \<and>
         (\<forall>c s res. sessions sys c = Some s \<and> call s = InFlight \<longrightarrow>
            (\<exists>sys' s'. step k r (Resolve c res) sys = Some sys' \<and> sessions sys' c = Some s' \<and>
               sent s' = sent s @ (if connected s then [outcome_event res] else []) \<and>
               phase s' = (if connected s then Idle else Closed) \<and> buffer s' = [] \<and>
               connected s' = connected s \<and>
               (\<forall>c'. c' \<noteq> c \<longrightarrow> sessions sys' c' = sessions sys c') \<and>
               (\<forall>c'. sessions sys' c' = None \<longrightarrow> step k r (Accept c') sys' \<noteq> None)))"
proof -
  have "filter is_outcome (sent s) = map outcome_event (answered c acts)"
    if "sessions sys c = Some s" for c s
    using execute_outcomes[OF assms(2), of c] that by (simp add: outcomes_def initial_def)
  then have c1: "\<forall>c s. sessions sys c = Some s \<longrightarrow>
            filter is_outcome (sent s) = map outcome_event (answered c acts)"
    by blast
  have c2: "\<forall>t. outcome_event (TranscriptText t) = TranscriptEvent t" by simp
  have c3: "\<forall>f. outcome_event (Failure f) = ErrorEvent f" by simp
  have c4: "\<forall>c s res. sessions sys c = Some s \<and> call s = InFlight \<longrightarrow>
            (\<exists>sys' s'. step k r (Resolve c res) sys = Some sys' \<and> sessions sys' c = Some s' \<and>
               sent s' = sent s @ (if connected s then [outcome_event res] else []) \<and>
               phase s' = (if connected s then Idle else Closed) \<and> buffer s' = [] \<and>
               connected s' = connected s \<and>
               (\<forall>c'. c' \<noteq> c \<longrightarrow> sessions sys' c' = sessions sys c') \<and>
               (\<forall>c'. sessions sys' c' = None \<longrightarrow> step k r (Accept c') sys' \<noteq> None))"
  proof (intro allI impI, elim conjE)
    fix c s res assume "sessions sys c = Some s" "call s = InFlight"
    then show "\<exists>sys' s'. step k r (Resolve c res) sys = Some sys' \<and> sessions sys' c = Some s' \<and>
               sent s' = sent s @ (if connected s then [outcome_event res] else []) \<and>
               phase s' = (if connected s then Idle else Closed) \<and> buffer s' = [] \<and>
               connected s' = connected s \<and>
               (\<forall>c'. c' \<noteq> c \<longrightarrow> sessions sys' c' = sessions sys c') \<and>
               (\<forall>c'. sessions sys' c' = None \<longrightarrow> step k r (Accept c') sys' \<noteq> None)"
      by (rule resolve_outcome)
  qed
  show ?thesis by (rule conjI[OF c1 conjI[OF c2 conjI[OF c3 c4]]])
qed

theorem one_outcome_event_per_connected_transcription_witness:
  "main example_externals Map.empty example_argv = Serving example_running \<and>
   execute example_core example_running
     (example_acts @ [Resolve 0 (Failure (BackendRejected 401 ''Unauthorized'')), Acquire 1,
        Deliver 1 Disconnect, Resolve 1 (TranscriptText ''hello world'')])
     (initial Map.empty example_running) \<noteq> None \<and>
   map (\<lambda>c. map_option sent
     (sessions (the (execute example_core example_running
       (example_acts @ [Resolve 0 (Failure (BackendRejected 401 ''Unauthorized'')), Acquire 1,
          Deliver 1 Disconnect, Resolve 1 (TranscriptText ''hello world'')])
       (initial Map.empty example_running))) c)) [0, 1] =
   [Some [ErrorEvent (BackendRejected 401 ''Unauthorized'')], Some []]"
proof -
  let ?acts = "example_acts @ [Resolve 0 (Failure (BackendRejected 401 ''Unauthorized'')), Acquire 1,
        Deliver 1 Disconnect, Resolve 1 (TranscriptText ''hello world'')]"
  let ?run = "execute example_core example_running ?acts (initial Map.empty example_running)"
  let ?sys = "the ?run"
  have ne: "?run \<noteq> None" by (simp add: run_simps on_result_def onDisconnect_def)
  then have sys: "?run = Some ?sys" by auto
  have ex: "sessions ?sys 0 \<noteq> None \<and> sessions ?sys 1 \<noteq> None \<and>
     filter is_outcome (sent (the (sessions ?sys 0))) = sent (the (sessions ?sys 0)) \<and>
     filter is_outcome (sent (the (sessions ?sys 1))) = sent (the (sessions ?sys 1))"
    by (simp add: run_simps on_result_def onDisconnect_def)
  then obtain s0 s1 where s: "sessions ?sys 0 = Some s0" "sessions ?sys 1 = Some s1"
    "filter is_outcome (sent s0) = sent s0" "filter is_outcome (sent s1) = sent s1"
    by auto
  have res: "answered 0 ?acts = [Failure (BackendRejected 401 ''Unauthorized'')]"
    "answered 1 ?acts = []"
    by (simp_all add: example_acts_def)
  from one_outcome_event_per_connected_transcription[OF example_main sys] s res
  have "sent s0 = [ErrorEvent (BackendRejected 401 ''Unauthorized'')]" "sent s1 = []"
    by auto
  with s example_main ne show ?thesis by simp
qed

subsection \<open>Temperatures outside the unit interval\<close>







end
